theory Spec2Isabelle
  imports Main "HOL-Library.AList" "HOL-Library.Char_ord" "HOL-Library.List_Lexorder"
begin

section \<open>The header generator \<open>dev/generate_headers.py\<close>\<close>

text \<open>
  The script packages JSON fragment files into combined documents and writes them, hex
  encoded, into C++ headers. This theory embeds the script function by function. Paths
  are written relative to the repository root; a file's content is its sequence of bytes
  (a \<open>string\<close>, one \<open>char\<close> per byte).
\<close>

subsection \<open>Files\<close>

type_synonym path = string

record file_rec =
  mtime :: nat
  content :: string

text \<open>
  The file system is a table from paths to files. The order of the table is the order in
  which a directory is enumerated; writing an existing file keeps its place and a new
  file goes to the end (\<open>AList.update\<close>).
\<close>

type_synonym fsys = "(path \<times> file_rec) list"

definition exists_file :: "fsys \<Rightarrow> path \<Rightarrow> bool" where
  "exists_file fs p = (map_of fs p \<noteq> None)"

datatype error =
    ValueError string
  | FileNotFoundError path
  | UnpicklingError path
  | TypeError
  | NameError
  | UnicodeError path

subsection \<open>External collaborators\<close>

text \<open>
  Values of \<open>json.load\<close>. Numbers keep their literal: the script never computes with them.
\<close>

datatype json =
    JNull
  | JBool bool
  | JNum string
  | JStr string
  | JArr "json list"
  | JObj "(string \<times> json) list"

text \<open>
  What the two \<open>git\<close> calls of \<open>gitrev_to_file\<close> do: \<open>git --version\<close> fails
  (\<open>CalledProcessError\<close>), \<open>git rev-parse HEAD\<close> returns a non-zero code, it prints
  a text, or starting the process raises \<open>OSError\<close>.
\<close>

datatype git_outcome = GitMissing | GitFailed | GitOutput string | GitOSError

text \<open>
  The libraries and tools the script calls are parameters of the model:
  \<open>hashlib.sha224(...).hexdigest()\<close>; \<open>json.load\<close> on a file with the given
  bytes, opened in text mode (\<open>None\<close> when it raises a \<open>ValueError\<close>: a
  \<open>JSONDecodeError\<close>, or a \<open>UnicodeDecodeError\<close> when the bytes are not text in
  the encoding of the locale); whether the bytes are text in that encoding;
  \<open>json.dumps\<close> without and with \<open>json_options\<close>,
  \<open>zlib.compress\<close>, \<open>pickle.dump\<close> of \<open>dict(sorted_sources=...)\<close> and
  \<open>pickle.load(...)['sorted_sources']\<close> (\<open>None\<close> when either step raises),
  \<open>str(datetime.now())\<close> at a clock value, how the clock moves from one write to the
  next, the result of \<open>get_version\<close> on \<open>CMakeLists.txt\<close>, and \<open>git\<close>.
\<close>

record ext =
  sha224 :: "string \<Rightarrow> string"
  json_loads :: "string \<Rightarrow> json option"
  text_decodes :: "string \<Rightarrow> bool"
  json_dumps :: "json \<Rightarrow> string"
  json_dumps_pretty :: "json \<Rightarrow> string"
  zlib_compress :: "string \<Rightarrow> string"
  pickle_dumps :: "path list \<Rightarrow> string"
  pickle_loads :: "string \<Rightarrow> path list option"
  now_str :: "nat \<Rightarrow> string"
  tick :: "nat \<Rightarrow> nat"
  cmake_version :: string
  git :: git_outcome

text \<open>
  \<^verbatim>\<open>def get_hash(data):
    try:
        return hashlib.sha224(data).hexdigest()
    except TypeError:
        return hashlib.sha224(data.encode('ascii')).hexdigest()\<close>
  Bytes and ASCII text are the same \<open>string\<close> here.
\<close>

definition get_hash :: "ext \<Rightarrow> string \<Rightarrow> string" where
  "get_hash E data = sha224 E data"

subsection \<open>The state of a run\<close>

text \<open>
  The files, the clock, the module's dictionary \<open>hashes\<close> (in insertion order, as a
  Python \<open>dict\<close> keeps it) and the paths written so far, in order.
\<close>

record state =
  files :: fsys
  clock :: nat
  hashes :: "(string \<times> json) list"
  written :: "path list"

text \<open>\<open>open(p, 'w').write(c)\<close>: the file gets the time of the clock, which then moves on.\<close>

definition write_file :: "ext \<Rightarrow> path \<Rightarrow> string \<Rightarrow> state \<Rightarrow> state" where
  "write_file E p c s =
     s\<lparr>files := AList.update p \<lparr>mtime = clock s, content = c\<rparr> (files s),
       clock := tick E (clock s),
       written := written s @ [p]\<rparr>"

text \<open>
  The test \<^verbatim>\<open>key not in hashes or (key in hashes and hashes[key] != digest)\<close>.
\<close>

definition hash_differs :: "(string \<times> json) list \<Rightarrow> string \<Rightarrow> string \<Rightarrow> bool" where
  "hash_differs h key digest =
     (case map_of h key of None \<Rightarrow> True | Some d \<Rightarrow> d \<noteq> JStr digest)"

text \<open>
  \<open>open(p, 'r').read()\<close> on ASCII bytes: a file opened in text mode is read with
  universal newlines, so \<open>\r\n\<close> and a lone \<open>\r\<close> both arrive as \<open>\n\<close>.
\<close>

fun read_text :: "string \<Rightarrow> string" where
  "read_text [] = []"
| "read_text [c] = (if c = CHR 0x0D then [CHR 0x0A] else [c])"
| "read_text (c # d # r) =
     (if c = CHR 0x0D then
        (if d = CHR 0x0A then CHR 0x0A # read_text r else CHR 0x0A # read_text (d # r))
      else c # read_text (d # r))"

subsection \<open>The hex encoding of \<open>TO_CPP\<close>\<close>

text \<open>
  \<^verbatim>\<open>def to_chunks(l, n):
    if n < 1:
        n = 1
    return [l[i:i + n] for i in range(0, len(l), n)]\<close>
  \<open>range(0, len(l), n)\<close> has \<open>ceil(len(l) / n)\<close> elements \<open>0, n, 2n, ...\<close>.
\<close>

definition to_chunks :: "'a list \<Rightarrow> nat \<Rightarrow> 'a list list" where
  "to_chunks l n =
     (let m = (if n < 1 then 1 else n)
      in map (\<lambda>k. take m (drop (k * m) l)) [0 ..< (length l + m - 1) div m])"

definition hexdigit :: "nat \<Rightarrow> char" where
  "hexdigit d = ''0123456789abcdef'' ! (d mod 16)"

text \<open>\<^verbatim>\<open>"0x{:02x}".format(int(b))\<close> for a byte \<open>b\<close>.\<close>

definition hex_lit :: "char \<Rightarrow> string" where
  "hex_lit b = ''0x'' @ [hexdigit (of_char b div 16), hexdigit (of_char b mod 16)]"

text \<open>Python's \<open>sep.join(xs)\<close>.\<close>

fun join :: "string \<Rightarrow> string list \<Rightarrow> string" where
  "join sep [] = []"
| "join sep [x] = x"
| "join sep (x # y # ys) = x @ sep @ join sep (y # ys)"

text \<open>
  \<^verbatim>\<open>h = ["0x{:02x}".format(int(b)) for b in json_] + ['0x00']
chunks = to_chunks(h, 16)
hex_string = ',\n'.join([', '.join(chunk) for chunk in chunks])\<close>
\<close>

definition hex_string :: "string \<Rightarrow> string" where
  "hex_string json = join [CHR '','', CHR 0x0A] (map (join '', '') (to_chunks (map hex_lit json @ [''0x00'']) 16))"

text \<open>
  The reverse of the encoding, following the specification's words. The text is cut
  into lines at each comma followed by a line feed, and each line into literals at
  each comma followed by a blank. Every line but the last must hold 16 literals and
  the last between 1 and 16; every literal must be \<open>0x\<close> and two digits out of
  \<open>0123456789abcdef\<close>; the last byte must be the terminating zero, which is dropped.
\<close>

fun split_at :: "char \<Rightarrow> char \<Rightarrow> string \<Rightarrow> string \<Rightarrow> string list" where
  "split_at c1 c2 cur [] = [cur]"
| "split_at c1 c2 cur [x] = [cur @ [x]]"
| "split_at c1 c2 cur (x # y # r) =
     (if x = c1 \<and> y = c2 then cur # split_at c1 c2 [] r
      else split_at c1 c2 (cur @ [x]) (y # r))"

definition hexval :: "char \<Rightarrow> nat option" where
  "hexval c =
     (let n = (of_char c :: nat)
      in if 48 \<le> n \<and> n \<le> 57 then Some (n - 48)
         else if 97 \<le> n \<and> n \<le> 102 then Some (n - 87)
         else None)"

definition parse_literal :: "string \<Rightarrow> char option" where
  "parse_literal lit =
     (case lit of
        [z, x, a, b] \<Rightarrow>
          if z = CHR ''0'' \<and> x = CHR ''x'' then
            (case (hexval a, hexval b) of
               (Some h, Some l) \<Rightarrow> Some (char_of (16 * h + l))
             | _ \<Rightarrow> None)
          else None
      | _ \<Rightarrow> None)"

definition split_lines :: "string \<Rightarrow> string list list" where
  "split_lines s =
     map (split_at (CHR '','') (CHR '' '') []) (split_at (CHR '','') (CHR 0x0A) [] s)"

definition decode_hex_string :: "string \<Rightarrow> string option" where
  "decode_hex_string s =
     (let ls = split_lines s
      in if list_all (\<lambda>l. length l = 16) (butlast ls)
            \<and> 1 \<le> length (last ls) \<and> length (last ls) \<le> 16
         then (case those (map parse_literal (concat ls)) of
                 None \<Rightarrow> None
               | Some bytes \<Rightarrow>
                   if bytes \<noteq> [] \<and> last bytes = CHR 0x00 then Some (butlast bytes) else None)
         else None)"

subsection \<open>The staleness check of the embed jobs\<close>

text \<open>
  \<^verbatim>\<open>def needs_build(inpath: Path, outpath: Path):
    if not outpath.exists():
        return True
    if not inpath.exists():
        raise ValueError(f"{inpath} cannot be found")
    return os.path.getmtime(inpath) > os.path.getmtime(outpath)\<close>
\<close>

definition needs_build :: "fsys \<Rightarrow> path \<Rightarrow> path \<Rightarrow> error + bool" where
  "needs_build fs inpath outpath =
     (case map_of fs outpath of
        None \<Rightarrow> Inr True
      | Some out \<Rightarrow>
          (case map_of fs inpath of
             None \<Rightarrow> Inl (ValueError (inpath @ '' cannot be found''))
           | Some inp \<Rightarrow> Inr (mtime inp > mtime out)))"

subsection \<open>The embed jobs of \<open>TO_CPP\<close>\<close>

definition zvalues :: "(string \<times> string \<times> string) list" where
  "zvalues = [(''all_fluids.json.z'', ''all_fluids_JSON_z.h'', ''all_fluids_JSON_z'')]"

definition values_tab :: "(string \<times> string \<times> string) list" where
  "values_tab =
     [(''all_fluids.json'', ''all_fluids_JSON.h'', ''all_fluids_JSON''),
      (''all_incompressibles.json'', ''all_incompressibles_JSON.h'', ''all_incompressibles_JSON''),
      (''mixtures/mixture_departure_functions.json'', ''mixture_departure_functions_JSON.h'', ''mixture_departure_functions_JSON''),
      (''mixtures/mixture_binary_pairs.json'', ''mixture_binary_pairs_JSON.h'', ''mixture_binary_pairs_JSON''),
      (''mixtures/predefined_mixtures.json'', ''predefined_mixtures_JSON.h'', ''predefined_mixtures_JSON''),
      (''cubics/all_cubic_fluids.json'', ''all_cubics_JSON.h'', ''all_cubics_JSON''),
      (''cubics/cubic_fluids_schema.json'', ''cubic_fluids_schema_JSON.h'', ''cubic_fluids_schema_JSON''),
      (''pcsaft/pcsaft_fluids_schema.json'', ''pcsaft_fluids_schema_JSON.h'', ''pcsaft_fluids_schema_JSON''),
      (''pcsaft/all_pcsaft_fluids.json'', ''all_pcsaft_JSON.h'', ''all_pcsaft_JSON''),
      (''pcsaft/mixture_binary_pairs_pcsaft.json'', ''mixture_binary_pairs_pcsaft_JSON.h'', ''mixture_binary_pairs_pcsaft_JSON'')]"

definition text_lines :: "string list \<Rightarrow> string" where
  "text_lines ls = concat (map (\<lambda>l. l @ [CHR 0x0A]) ls)"

text \<open>\<open>incbin_template\<close> with \<open>%SYMBOL%\<close> and \<open>%DATA%\<close> replaced.\<close>

definition incbin_text :: "string \<Rightarrow> string \<Rightarrow> string" where
  \<open>incbin_text variable hex = text_lines
     [''/* File generated for use with incbin */'',
      [],
      ''#ifdef __cplusplus'',
      ''extern "C" {'',
      ''#endif'',
      [],
      ''/* INCBIN('' @ variable @ '', "all_fluids.json.z"); */'',
      ''INCBIN_CONST INCBIN_ALIGN unsigned char g'' @ variable @ ''Data[] = {'',
      hex,
      ''};'',
      ''INCBIN_CONST INCBIN_ALIGN unsigned char *const g'' @ variable @ ''End = g'' @ variable
        @ ''Data + sizeof(g'' @ variable @ ''Data);'',
      ''INCBIN_CONST unsigned int g'' @ variable @ ''Size = sizeof(g'' @ variable @ ''Data);'',
      [],
      ''#ifdef __cplusplus'',
      ''}'',
      ''#endif'']\<close>

text \<open>The text \<open>output\<close> of the second loop, \<open>t\<close> being \<open>str(datetime.now())\<close>.\<close>

definition json_header_text :: "string \<Rightarrow> string \<Rightarrow> string \<Rightarrow> string" where
  "json_header_text t variable hex = text_lines
     [''// File generated by the script dev/generate_headers.py on '' @ t,
      [],
      ''// JSON file encoded in binary form'',
      ''const unsigned char '' @ variable @ ''_binary[] = {'',
      hex,
      ''};'',
      [],
      ''// Combined into a single std::string '']
     @ ''std::string '' @ variable @ ''('' @ variable @ ''_binary, '' @ variable
     @ ''_binary + sizeof('' @ variable @ ''_binary)/sizeof('' @ variable @ ''_binary[0]));''"

text \<open>
  The body of the loop over \<open>zvalues\<close> for one job. The input is read as bytes; reading
  a missing input raises.
\<close>

definition embed_incbin :: "ext \<Rightarrow> string \<times> string \<times> string \<Rightarrow> state \<Rightarrow> error option \<times> state" where
  "embed_incbin E job s =
     (case job of (infile, outfile, variable) \<Rightarrow>
        let inpath = ''dev/'' @ infile; outpath = ''include/'' @ outfile
        in case needs_build (files s) inpath outpath of
             Inl e \<Rightarrow> (Some e, s)
           | Inr False \<Rightarrow> (None, s)
           | Inr True \<Rightarrow>
               (case map_of (files s) inpath of
                  None \<Rightarrow> (Some (FileNotFoundError inpath), s)
                | Some f \<Rightarrow>
                    let hex = hex_string (content f)
                    in if \<not> exists_file (files s) outpath
                          \<or> hash_differs (hashes s) variable (get_hash E hex)
                       then let s' = write_file E outpath (incbin_text variable hex) s
                            in (None, s'\<lparr>hashes := AList.update variable (JStr (get_hash E hex)) (hashes s')\<rparr>)
                       else (None, s)))"

text \<open>
  The body of the loop over \<open>values\<close> for one job. The input is first loaded as JSON,
  then read in text mode and encoded with \<open>.encode('ascii')\<close>, which raises on a byte
  above 127: the payload is the text as read, not the bytes of the file.
\<close>

definition is_ascii :: "string \<Rightarrow> bool" where
  "is_ascii bs = list_all (\<lambda>b. (of_char b :: nat) < 128) bs"

definition embed_json :: "ext \<Rightarrow> string \<times> string \<times> string \<Rightarrow> state \<Rightarrow> error option \<times> state" where
  "embed_json E job s =
     (case job of (infile, outfile, variable) \<Rightarrow>
        let inpath = ''dev/'' @ infile; outpath = ''include/'' @ outfile
        in case needs_build (files s) inpath outpath of
             Inl e \<Rightarrow> (Some e, s)
           | Inr False \<Rightarrow> (None, s)
           | Inr True \<Rightarrow>
               (case map_of (files s) inpath of
                  None \<Rightarrow> (Some (FileNotFoundError inpath), s)
                | Some f \<Rightarrow>
                    (case json_loads E (content f) of
                       None \<Rightarrow> (Some (ValueError (''unable to decode file '' @ inpath)), s)
                     | Some jj \<Rightarrow>
                         if \<not> is_ascii (read_text (content f)) then (Some (UnicodeError inpath), s)
                         else
                           let hex = hex_string (read_text (content f))
                           in if \<not> exists_file (files s) outpath
                                 \<or> hash_differs (hashes s) variable (get_hash E hex)
                              then let s' = write_file E outpath
                                              (json_header_text (now_str E (clock s)) variable hex) s
                                   in (None, s'\<lparr>hashes := AList.update variable (JStr (get_hash E hex)) (hashes s')\<rparr>)
                              else (None, s))))"

text \<open>A \<open>for\<close> loop over jobs: an exception ends it.\<close>

fun for_jobs :: "('j \<Rightarrow> state \<Rightarrow> error option \<times> state) \<Rightarrow> 'j list \<Rightarrow> state \<Rightarrow> error option \<times> state" where
  "for_jobs body [] s = (None, s)"
| "for_jobs body (j # js) s =
     (case body j s of
        (Some e, s') \<Rightarrow> (Some e, s')
      | (None, s') \<Rightarrow> for_jobs body js s')"

subsection \<open>\<open>version_to_file\<close> and \<open>gitrev_to_file\<close>\<close>

definition cpversion_text :: "string \<Rightarrow> string \<Rightarrow> string" where
  \<open>cpversion_text t v =
     ''//Generated by the generate_headers.py script on '' @ t @ [CHR 0x0A, CHR 0x0A]
     @ ''static char version [] ="'' @ v @ ''";''\<close>

definition gitrevision_text :: "string \<Rightarrow> string \<Rightarrow> string" where
  \<open>gitrevision_text t revision =
     ''//Generated by the generate_headers.py script on '' @ t @ [CHR 0x0A, CHR 0x0A]
     @ ''std::string gitrevision = "'' @ revision @ ''";''\<close>

text \<open>
  The header \<open>cpversion.h\<close> is written when the stored digest is missing or differs;
  the hidden file \<open>.version\<close> is written in every case.
\<close>

definition version_to_file :: "ext \<Rightarrow> state \<Rightarrow> state" where
  "version_to_file E s =
     (let version = cmake_version E;
          s1 = (if hash_differs (hashes s) ''version'' (get_hash E version)
                then write_file E ''include/cpversion.h''
                       (cpversion_text (now_str E (clock s)) version)
                       (s\<lparr>hashes := AList.update ''version'' (JStr (get_hash E version)) (hashes s)\<rparr>)
                else s)
      in write_file E ''.version'' version s1)"

text \<open>Python's \<open>str.strip()\<close> on ASCII text.\<close>

definition is_space :: "char \<Rightarrow> bool" where
  "is_space c = ((of_char c :: nat) \<in> {9, 10, 11, 12, 13, 28, 29, 30, 31, 32})"

definition strip :: "string \<Rightarrow> string" where
  "strip s = rev (dropWhile is_space (rev (dropWhile is_space s)))"

text \<open>
  The revision: from \<open>git\<close>, or from \<open>dev/gitrevision.txt\<close>, or \<open>???\<close>. When the
  text that \<open>git\<close> prints has a blank in it, the \<open>raise\<close> of line 294 names the
  undefined variable \<open>rev\<close>, which is a \<open>NameError\<close> that no handler catches. An
  \<open>OSError\<close> is caught by the outer handler and nothing is written: this is
  \<open>Inr None\<close>. The header is then written when the stored digest is missing or differs.
\<close>

definition git_revision :: "ext \<Rightarrow> fsys \<Rightarrow> error + string option" where
  "git_revision E fs =
     (case git E of
        GitOSError \<Rightarrow> Inr None
      | GitMissing \<Rightarrow> Inr (Some ''???'')
      | GitFailed \<Rightarrow>
          Inr (Some (case map_of fs ''dev/gitrevision.txt'' of
                       Some f \<Rightarrow> strip (read_text (content f))
                     | None \<Rightarrow> ''???''))
      | GitOutput out \<Rightarrow>
          if CHR '' '' \<in> set (strip out) then Inl NameError else Inr (Some (strip out)))"

definition gitrev_to_file :: "ext \<Rightarrow> state \<Rightarrow> error option \<times> state" where
  "gitrev_to_file E s =
     (case git_revision E (files s) of
        Inl e \<Rightarrow> (Some e, s)
      | Inr None \<Rightarrow> (None, s)
      | Inr (Some gitrev) \<Rightarrow>
          if hash_differs (hashes s) ''gitrevision'' (get_hash E gitrev)
          then let s' = write_file E ''include/gitrevision.h''
                          (gitrevision_text (now_str E (clock s)) gitrev) s
               in (None, s'\<lparr>hashes := AList.update ''gitrevision'' (JStr (get_hash E gitrev)) (hashes s')\<rparr>)
          else (None, s))"

subsection \<open>\<open>DependencyManager\<close>\<close>

text \<open>
  The field \<open>sources\<close> is annotated \<open>list[Path]\<close>, and \<open>combine_json\<close> passes the
  result of \<open>Path.glob\<close>, which is a generator: it yields each path once, so a
  \<open>for\<close> loop that runs to its end leaves it empty and a later \<open>sorted(...)\<close> of it
  is \<open>[]\<close>. Both kinds of iterable are modelled; a generator is the list of the paths
  it has still to yield.
\<close>

datatype iterable = PyList "path list" | PyGenerator "path list"

fun items :: "iterable \<Rightarrow> path list" where
  "items (PyList xs) = xs"
| "items (PyGenerator xs) = xs"

text \<open>The iterable after a loop over it that left \<open>rest\<close> unvisited.\<close>

fun after_loop :: "iterable \<Rightarrow> path list \<Rightarrow> iterable" where
  "after_loop (PyList xs) rest = PyList xs"
| "after_loop (PyGenerator xs) rest = PyGenerator rest"

record dependency_manager =
  sources :: iterable
  destination :: path
  cachefile :: path

text \<open>
  \<^verbatim>\<open>for source in self.sources:
    if os.path.getmtime(source) >= dest_mtime:
        return True, f"source file {source} is newer than destination"\<close>
  The result is the source found, if any, and the paths not visited.
\<close>

fun newer_source :: "fsys \<Rightarrow> nat \<Rightarrow> path list \<Rightarrow> (error + path option) \<times> path list" where
  "newer_source fs dest_mtime [] = (Inr None, [])"
| "newer_source fs dest_mtime (source # rest) =
     (case map_of fs source of
        None \<Rightarrow> (Inl (FileNotFoundError source), rest)
      | Some f \<Rightarrow>
          if mtime f \<ge> dest_mtime then (Inr (Some source), rest)
          else newer_source fs dest_mtime rest)"

text \<open>
  \<open>DependencyManager.needs_build\<close>. It returns the pair of the answer and the reason,
  or raises, and leaves the manager with what remains of \<open>sources\<close>. The second test
  of \<open>self.cachefile.exists()\<close> holds whenever it is reached. \<open>sorted(self.sources)\<close>
  runs after the loop, on what the loop has left.
\<close>

definition DependencyManager_needs_build ::
  "ext \<Rightarrow> fsys \<Rightarrow> dependency_manager \<Rightarrow> (error + bool \<times> string) \<times> dependency_manager" where
  "DependencyManager_needs_build E fs dm =
     (case map_of fs (destination dm) of
        None \<Rightarrow> (Inr (True, ''destination does not exist''), dm)
      | Some dest \<Rightarrow>
          (case map_of fs (cachefile dm) of
             None \<Rightarrow> (Inr (True, ''cache file does not exist''), dm)
           | Some cache \<Rightarrow>
               (case newer_source fs (mtime dest) (items (sources dm)) of
                  (Inl e, rest) \<Rightarrow> (Inl e, dm\<lparr>sources := after_loop (sources dm) rest\<rparr>)
                | (Inr (Some source), rest) \<Rightarrow>
                    (Inr (True, ''source file '' @ source @ '' is newer than destination''),
                     dm\<lparr>sources := after_loop (sources dm) rest\<rparr>)
                | (Inr None, rest) \<Rightarrow>
                    (let dm1 = dm\<lparr>sources := after_loop (sources dm) rest\<rparr>
                     in case pickle_loads E (content cache) of
                          None \<Rightarrow> (Inl (UnpicklingError (cachefile dm)), dm1)
                        | Some previous_sources \<Rightarrow>
                            (let current = sort (items (sources dm1));
                                 dm2 = dm1\<lparr>sources := after_loop (sources dm1) []\<rparr>
                             in if current \<noteq> previous_sources
                                then (Inr (True, ''source list has changed''), dm2)
                                else (Inr (False, []), dm2))))))"

text \<open>
  \<^verbatim>\<open>def write_cache(self):
    with self.cachefile.open('wb') as fp:
        pickle.dump(dict(sorted_sources=sorted(self.sources)), fp)\<close>
\<close>

definition DependencyManager_write_cache :: "ext \<Rightarrow> dependency_manager \<Rightarrow> state \<Rightarrow> state" where
  "DependencyManager_write_cache E dm s =
     write_file E (cachefile dm) (pickle_dumps E (sort (items (sources dm)))) s"

subsection \<open>\<open>combine_json\<close>\<close>

text \<open>
  The name of \<open>p\<close> inside the directory \<open>dir\<close>, when \<open>p\<close> lies directly in it.
\<close>

definition name_in :: "path \<Rightarrow> path \<Rightarrow> string option" where
  "name_in dir p =
     (let pre = dir @ ''/''; name = drop (length pre) p
      in if take (length pre) p = pre \<and> name \<noteq> [] \<and> CHR ''/'' \<notin> set name
         then Some name else None)"

definition ends_with_json :: "string \<Rightarrow> bool" where
  "ends_with_json name = (5 \<le> length name \<and> drop (length name - 5) name = ''.json'')"

text \<open>
  \<open>Path(dir).glob('*.json')\<close> matches every name that ends in \<open>.json\<close>;
  \<open>glob.glob(os.path.join(dir, '*.json'))\<close> leaves out the names that begin with a dot.
\<close>

definition path_glob :: "fsys \<Rightarrow> path \<Rightarrow> path list" where
  "path_glob fs dir =
     filter (\<lambda>p. case name_in dir p of None \<Rightarrow> False | Some name \<Rightarrow> ends_with_json name)
       (map fst fs)"

definition glob_glob :: "fsys \<Rightarrow> path \<Rightarrow> path list" where
  "glob_glob fs dir =
     filter (\<lambda>p. case name_in dir p of
                    None \<Rightarrow> False
                  | Some name \<Rightarrow> ends_with_json name \<and> hd name \<noteq> CHR ''.'')
       (map fst fs)"

text \<open>
  \<^verbatim>\<open>for file in glob.glob(...):
    try:
        fluid = json.load(open(file, 'r'))
        master += [fluid]
    except ValueError:
        ...
        raise ValueError('unable to decode file %s' % file)\<close>
\<close>

fun load_fragments :: "ext \<Rightarrow> fsys \<Rightarrow> path list \<Rightarrow> error + json list" where
  "load_fragments E fs [] = Inr []"
| "load_fragments E fs (file # rest) =
     (case map_of fs file of
        None \<Rightarrow> Inl (FileNotFoundError file)
      | Some f \<Rightarrow>
          (case json_loads E (content f) of
             None \<Rightarrow> Inl (ValueError (''unable to decode file '' @ file))
           | Some fluid \<Rightarrow>
               (case load_fragments E fs rest of
                  Inl e \<Rightarrow> Inl e
                | Inr master \<Rightarrow> Inr (fluid # master))))"

text \<open>The body of \<open>if needs:\<close> for the fluids.\<close>

definition package_fluids :: "ext \<Rightarrow> dependency_manager \<Rightarrow> state \<Rightarrow> error option \<times> state" where
  "package_fluids E depfluids s =
     (case load_fragments E (files s) (glob_glob (files s) ''dev/fluids'') of
        Inl e \<Rightarrow> (Some e, s)
      | Inr master \<Rightarrow>
          (let s1 = write_file E ''dev/all_fluids.json.z''
                      (zlib_compress E (json_dumps E (JArr master))) s;
               s2 = write_file E ''dev/all_fluids_verbose.json''
                      (json_dumps_pretty E (JArr master)) s1;
               s3 = write_file E ''dev/all_fluids.json'' (json_dumps E (JArr master)) s2
           in (None, DependencyManager_write_cache E depfluids s3)))"

text \<open>The body of \<open>if depincomp.needs_build():\<close> for the incompressibles.\<close>

definition package_incomp :: "ext \<Rightarrow> dependency_manager \<Rightarrow> state \<Rightarrow> error option \<times> state" where
  "package_incomp E depincomp s =
     (case load_fragments E (files s) (glob_glob (files s) ''dev/incompressible_liquids/json'') of
        Inl e \<Rightarrow> (Some e, s)
      | Inr master \<Rightarrow>
          (let s1 = write_file E ''dev/all_incompressibles_verbose.json''
                      (json_dumps_pretty E (JArr master)) s;
               s2 = write_file E ''dev/all_incompressibles.json'' (json_dumps E (JArr master)) s1
           in (None, DependencyManager_write_cache E depincomp s2)))"

text \<open>
  The two managers that \<open>combine_json\<close> constructs. The generator lists the directory
  when it is first iterated; the model lists it when the manager is constructed, which
  is the same list, since the job writes no file into the directory of its fragments.
\<close>

definition depfluids_of :: "fsys \<Rightarrow> dependency_manager" where
  "depfluids_of fs =
     \<lparr>sources = PyGenerator (path_glob fs ''dev/fluids''),
      destination = ''dev/all_fluids.json.z'',
      cachefile = ''dev/.fluiddepcache''\<rparr>"

definition depincomp_of :: "fsys \<Rightarrow> dependency_manager" where
  "depincomp_of fs =
     \<lparr>sources = PyGenerator (path_glob fs ''dev/incompressible_liquids/json''),
      destination = ''dev/all_incompressibles.json'',
      cachefile = ''dev/.incompdepcache''\<rparr>"

text \<open>
  The first job tests \<open>needs\<close>, the first component of the pair. The second job tests
  the pair itself, \<^verbatim>\<open>if depincomp.needs_build():\<close>, and a pair is true in Python, so
  its body runs whenever \<open>needs_build\<close> returns.
\<close>

definition fluids_job :: "ext \<Rightarrow> state \<Rightarrow> error option \<times> state" where
  "fluids_job E s =
     (case DependencyManager_needs_build E (files s) (depfluids_of (files s)) of
        (Inl e, depfluids) \<Rightarrow> (Some e, s)
      | (Inr (needs, reason), depfluids) \<Rightarrow>
          if needs then package_fluids E depfluids s else (None, s))"

definition incomp_job :: "ext \<Rightarrow> state \<Rightarrow> error option \<times> state" where
  "incomp_job E s =
     (case DependencyManager_needs_build E (files s) (depincomp_of (files s)) of
        (Inl e, depincomp) \<Rightarrow> (Some e, s)
      | (Inr answer, depincomp) \<Rightarrow> package_incomp E depincomp s)"

definition combine_json :: "ext \<Rightarrow> state \<Rightarrow> error option \<times> state" where
  "combine_json E s =
     (case fluids_job E s of
        (Some e, s') \<Rightarrow> (Some e, s')
      | (None, s') \<Rightarrow> incomp_job E s')"

subsection \<open>\<open>TO_CPP\<close> and \<open>generate\<close>\<close>

definition TO_CPP :: "ext \<Rightarrow> state \<Rightarrow> error option \<times> state" where
  "TO_CPP E s =
     (case combine_json E s of
        (Some e, s1) \<Rightarrow> (Some e, s1)
      | (None, s1) \<Rightarrow>
          (case for_jobs (embed_incbin E) zvalues s1 of
             (Some e, s2) \<Rightarrow> (Some e, s2)
           | (None, s2) \<Rightarrow> for_jobs (embed_json E) values_tab s2))"

definition hashes_fname :: path where
  "hashes_fname = ''dev/hashes.json''"

definition generate :: "ext \<Rightarrow> state \<Rightarrow> error option \<times> state" where
  "generate E s =
     (case gitrev_to_file E (version_to_file E s) of
        (Some e, s2) \<Rightarrow> (Some e, s2)
      | (None, s2) \<Rightarrow>
          (case TO_CPP E s2 of
             (Some e, s3) \<Rightarrow> (Some e, s3)
           | (None, s3) \<Rightarrow>
               (None, if hashes s3 \<noteq> []
                      then write_file E hashes_fname (json_dumps E (JObj (hashes s3))) s3
                      else s3)))"

text \<open>
  The module loads \<open>hashes\<close> when it is imported: an absent file gives the empty
  dictionary, and so does a file on which \<open>json.load\<close> raises
  \<open>JSONDecodeError\<close>, the one exception that is caught. When the bytes of the file are
  not text, \<open>json.load\<close> raises \<open>UnicodeDecodeError\<close>, which is not caught: the
  import fails.
\<close>

definition load_hashes :: "ext \<Rightarrow> fsys \<Rightarrow> error + json" where
  "load_hashes E fs =
     (case map_of fs hashes_fname of
        None \<Rightarrow> Inr (JObj [])
      | Some f \<Rightarrow>
          (case json_loads E (content f) of
             Some j \<Rightarrow> Inr j
           | None \<Rightarrow>
               if text_decodes E (content f) then Inr (JObj [])
               else Inl (UnicodeError hashes_fname)))"

text \<open>
  A run of the script on the files \<open>fs\<close> at clock \<open>t\<close>. When \<open>hashes.json\<close> decodes
  to a value that is not a dictionary, the first use of \<open>hashes\<close>, in
  \<open>version_to_file\<close>, raises \<open>TypeError\<close> before anything is written.
\<close>

definition run_script :: "ext \<Rightarrow> fsys \<Rightarrow> nat \<Rightarrow> error option \<times> state" where
  "run_script E fs t =
     (case load_hashes E fs of
        Inl e \<Rightarrow> (Some e, \<lparr>files = fs, clock = t, hashes = [], written = []\<rparr>)
      | Inr (JObj h) \<Rightarrow> generate E \<lparr>files = fs, clock = t, hashes = h, written = []\<rparr>
      | Inr _ \<Rightarrow> (Some TypeError, \<lparr>files = fs, clock = t, hashes = [], written = []\<rparr>))"

subsection \<open>Auxiliary definitions for the proofs\<close>

text \<open>The chunks of \<open>to_chunks\<close>, taken one after the other.\<close>

fun chunks_k :: "nat \<Rightarrow> nat \<Rightarrow> 'a list \<Rightarrow> 'a list list" where
  "chunks_k m 0 l = []"
| "chunks_k m (Suc k) l = take m l # chunks_k m k (drop m l)"

text \<open>
  A small instance of the external collaborators, to run the model on concrete files:
  the digest of a text is the text, the ASCII bytes are the texts, a dictionary of
  strings is written as
  \<open>{key=value;...\<close>, a text that begins with \<open>!\<close> or is empty does not decode as JSON,
  a pickled source list is \<open>P\<close> and one path per line, the clock moves by one at each
  write, and there is no \<open>git\<close>.
\<close>

fun sample_pairs :: "string \<Rightarrow> string \<Rightarrow> bool \<Rightarrow> string \<Rightarrow> (string \<times> json) list" where
  "sample_pairs k v b [] = []"
| "sample_pairs k v False (c # cs) =
     (if c = CHR ''='' then sample_pairs k [] True cs else sample_pairs (k @ [c]) v False cs)"
| "sample_pairs k v True (c # cs) =
     (if c = CHR '';'' then (k, JStr v) # sample_pairs [] [] False cs
      else sample_pairs k (v @ [c]) True cs)"

definition sample_loads :: "string \<Rightarrow> json option" where
  "sample_loads s =
     (case s of
        [] \<Rightarrow> None
      | c # r \<Rightarrow>
          if c = CHR ''!'' then None
          else if c = CHR ''{'' then Some (JObj (sample_pairs [] [] False r))
          else Some (JStr s))"

definition sample_text :: "json \<Rightarrow> string" where
  "sample_text j = (case j of JStr x \<Rightarrow> x | _ \<Rightarrow> ''null'')"

definition sample_dumps :: "json \<Rightarrow> string" where
  "sample_dumps j =
     (case j of
        JObj kvs \<Rightarrow> ''{'' @ concat (map (\<lambda>(k, v). k @ ''='' @ sample_text v @ '';'') kvs)
      | JArr js \<Rightarrow> ''['' @ concat (map (\<lambda>x. sample_text x @ '','') js) @ '']''
      | _ \<Rightarrow> sample_text j)"

fun sample_lines :: "string \<Rightarrow> string \<Rightarrow> string list" where
  "sample_lines cur [] = (if cur = [] then [] else [cur])"
| "sample_lines cur (c # cs) =
     (if c = CHR 0x0A then cur # sample_lines [] cs else sample_lines (cur @ [c]) cs)"

definition sample_unpickle :: "string \<Rightarrow> path list option" where
  "sample_unpickle s = (case s of [] \<Rightarrow> None | c # r \<Rightarrow> if c = CHR ''P'' then Some (sample_lines [] r) else None)"

definition sample_ext :: ext where
  "sample_ext =
     \<lparr>sha224 = (\<lambda>s. s),
      json_loads = sample_loads,
      text_decodes = is_ascii,
      json_dumps = sample_dumps,
      json_dumps_pretty = (\<lambda>j. '' '' @ sample_dumps j),
      zlib_compress = (\<lambda>s. ''z'' @ s),
      pickle_dumps = (\<lambda>ps. ''P'' @ text_lines ps),
      pickle_loads = sample_unpickle,
      now_str = (\<lambda>t. ''now''),
      tick = Suc,
      cmake_version = ''6.4.1'',
      git = GitMissing\<rparr>"

definition mk_file :: "nat \<Rightarrow> string \<Rightarrow> file_rec" where
  "mk_file t c = \<lparr>mtime = t, content = c\<rparr>"

text \<open>Sample states for the embed job of \<open>all_fluids.json.z\<close>.\<close>

definition job_z :: "string \<times> string \<times> string" where
  "job_z = (''all_fluids.json.z'', ''all_fluids_JSON_z.h'', ''all_fluids_JSON_z'')"

text \<open>The header is missing and the stored digest is the digest of the encoded input.\<close>

definition state_no_header :: state where
  "state_no_header =
     \<lparr>files = [(''dev/all_fluids.json.z'', mk_file 1 ''z'')],
      clock = 5,
      hashes = [(''all_fluids_JSON_z'', JStr (hex_string ''z''))],
      written = []\<rparr>"

text \<open>The header is older than the input and the stored digest is that of the encoded input.\<close>

definition state_old_header :: state where
  "state_old_header =
     \<lparr>files = [(''dev/all_fluids.json.z'', mk_file 9 ''z''),
               (''include/all_fluids_JSON_z.h'', mk_file 2 ''old'')],
      clock = 12,
      hashes = [(''all_fluids_JSON_z'', JStr (hex_string ''z''))],
      written = []\<rparr>"

text \<open>
  Sample files for the fluids job: one fragment, older than the packaged file, and a
  cache file that records exactly this fragment.
\<close>

definition fs_same_sources :: fsys where
  "fs_same_sources =
     [(''dev/fluids/a.json'', mk_file 1 ''A''),
      (''dev/all_fluids.json.z'', mk_file 5 ''z''),
      (''dev/.fluiddepcache'', mk_file 5 (''P'' @ text_lines [''dev/fluids/a.json'']))]"

text \<open>
  Three fragments and nothing else; the state after the fluids job has run twice from
  there; and the files of that state with the fragment \<open>c.json\<close> removed.
\<close>

definition fs_three :: fsys where
  "fs_three =
     [(''dev/fluids/a.json'', mk_file 1 ''A''),
      (''dev/fluids/b.json'', mk_file 1 ''B''),
      (''dev/fluids/c.json'', mk_file 1 ''C'')]"

definition fresh_state :: "fsys \<Rightarrow> nat \<Rightarrow> state" where
  "fresh_state fs t = \<lparr>files = fs, clock = t, hashes = [], written = []\<rparr>"

definition after_two_runs :: state where
  "after_two_runs =
     snd (fluids_job sample_ext (snd (fluids_job sample_ext (fresh_state fs_three 10))))"

definition c_removed :: fsys where
  "c_removed = AList.delete ''dev/fluids/c.json'' (files after_two_runs)"

text \<open>
  Sample files for the incompressibles job, on which its \<open>needs_build\<close> answers
  \<open>False\<close>: the fragment is older than the packaged file and the cache file records
  the empty list.
\<close>

definition fs_incomp_fresh :: fsys where
  "fs_incomp_fresh =
     [(''dev/incompressible_liquids/json/w.json'', mk_file 1 ''W''),
      (''dev/all_incompressibles.json'', mk_file 5 ''[W,]''),
      (''dev/.incompdepcache'', mk_file 5 ''P'')]"

text \<open>Sample files with a cache file of the fluids job that does not unpickle.\<close>

definition fs_corrupt_cache :: fsys where
  "fs_corrupt_cache =
     [(''dev/fluids/a.json'', mk_file 1 ''A''),
      (''dev/all_fluids.json.z'', mk_file 5 ''z''),
      (''dev/.fluiddepcache'', mk_file 5 ''garbage'')]"

text \<open>Sample files with a fragment that is not JSON in each of the two directories.\<close>

definition fs_malformed :: fsys where
  "fs_malformed =
     [(''dev/fluids/a.json'', mk_file 1 ''A''),
      (''dev/fluids/b.json'', mk_file 1 ''!B''),
      (''dev/incompressible_liquids/json/w.json'', mk_file 1 ''!W'')]"

text \<open>
  What a state \<open>s'\<close> may differ in from a state \<open>s\<close>: the files at the paths
  \<open>W\<close>, the digests stored under the keys \<open>K\<close>, and writes to paths of \<open>W\<close>
  added to the log.
\<close>

definition frame :: "path set \<Rightarrow> string set \<Rightarrow> state \<Rightarrow> state \<Rightarrow> bool" where
  "frame W K s s' \<longleftrightarrow>
     (\<forall>p. p \<notin> W \<longrightarrow> map_of (files s') p = map_of (files s) p)
     \<and> (\<forall>k. k \<notin> K \<longrightarrow> map_of (hashes s') k = map_of (hashes s) k)
     \<and> (\<exists>ws. written s' = written s @ ws \<and> set ws \<subseteq> W)"

text \<open>The files that \<open>combine_json\<close> writes.\<close>

definition aggregation_outputs :: "path set" where
  "aggregation_outputs =
     {''dev/all_fluids.json.z'', ''dev/all_fluids_verbose.json'', ''dev/all_fluids.json'',
      ''dev/.fluiddepcache'', ''dev/all_incompressibles_verbose.json'',
      ''dev/all_incompressibles.json'', ''dev/.incompdepcache''}"

definition outputs_of :: "(string \<times> string \<times> string) list \<Rightarrow> path set" where
  "outputs_of jobs = (\<lambda>(i, out, v). ''include/'' @ out) ` set jobs"

definition variables_of :: "(string \<times> string \<times> string) list \<Rightarrow> string set" where
  "variables_of jobs = (\<lambda>(i, out, v). v) ` set jobs"

text \<open>
  The payload of an embed job: the text of the input for the loop over \<open>values\<close> (the
  flag is true), its bytes for the loop over \<open>zvalues\<close>.
\<close>

definition payload_of :: "bool \<Rightarrow> file_rec \<Rightarrow> string" where
  "payload_of as_json f = (if as_json then read_text (content f) else content f)"

text \<open>
  What an embed job does, as a function of the three things it reads: the input file,
  the output file and the stored digest. \<open>Inl\<close> is the exception raised,
  \<open>Inr None\<close> is no write, \<open>Inr (Some hex)\<close> is the write of the encoded payload
  \<open>hex\<close>.
\<close>

definition embed_decision ::
  "bool \<Rightarrow> ext \<Rightarrow> path \<Rightarrow> file_rec option \<Rightarrow> file_rec option \<Rightarrow> json option \<Rightarrow> error + string option" where
  "embed_decision as_json E inpath inp outp stored =
     (case outp of
        Some out \<Rightarrow>
          (case inp of
             None \<Rightarrow> Inl (ValueError (inpath @ '' cannot be found''))
           | Some f \<Rightarrow>
               if mtime f > mtime out then
                 (if as_json \<and> json_loads E (content f) = None
                  then Inl (ValueError (''unable to decode file '' @ inpath))
                  else if as_json \<and> \<not> is_ascii (read_text (content f)) then Inl (UnicodeError inpath)
                  else if stored \<noteq> Some (JStr (get_hash E (hex_string (payload_of as_json f))))
                  then Inr (Some (hex_string (payload_of as_json f)))
                  else Inr None)
               else Inr None)
      | None \<Rightarrow>
          (case inp of
             None \<Rightarrow> Inl (FileNotFoundError inpath)
           | Some f \<Rightarrow>
               if as_json \<and> json_loads E (content f) = None
               then Inl (ValueError (''unable to decode file '' @ inpath))
               else if as_json \<and> \<not> is_ascii (read_text (content f)) then Inl (UnicodeError inpath)
               else Inr (Some (hex_string (payload_of as_json f)))))"

text \<open>
  Sample files for a whole run: the source inputs of the embed jobs, one fragment, and
  every header but \<open>mixture_departure_functions_JSON.h\<close>; then the first run on
  them and the second run on what the first has left.
\<close>

definition fs_checkout :: fsys where
  "fs_checkout =
     [(''dev/fluids/a.json'', mk_file 1 ''A''),
      (''dev/mixtures/mixture_departure_functions.json'', mk_file 1 ''m1''),
      (''dev/mixtures/mixture_binary_pairs.json'', mk_file 1 ''m2''),
      (''dev/mixtures/predefined_mixtures.json'', mk_file 1 ''m3''),
      (''dev/cubics/all_cubic_fluids.json'', mk_file 1 ''c1''),
      (''dev/cubics/cubic_fluids_schema.json'', mk_file 1 ''c2''),
      (''dev/pcsaft/pcsaft_fluids_schema.json'', mk_file 1 ''p1''),
      (''dev/pcsaft/all_pcsaft_fluids.json'', mk_file 1 ''p2''),
      (''dev/pcsaft/mixture_binary_pairs_pcsaft.json'', mk_file 1 ''p3''),
      (''include/all_fluids_JSON_z.h'', mk_file 100 []),
      (''include/all_fluids_JSON.h'', mk_file 100 []),
      (''include/all_incompressibles_JSON.h'', mk_file 100 []),
      (''include/mixture_binary_pairs_JSON.h'', mk_file 100 []),
      (''include/predefined_mixtures_JSON.h'', mk_file 100 []),
      (''include/all_cubics_JSON.h'', mk_file 100 []),
      (''include/cubic_fluids_schema_JSON.h'', mk_file 100 []),
      (''include/pcsaft_fluids_schema_JSON.h'', mk_file 100 []),
      (''include/all_pcsaft_JSON.h'', mk_file 100 []),
      (''include/mixture_binary_pairs_pcsaft_JSON.h'', mk_file 100 [])]"

definition first_run :: "error option \<times> state" where
  "first_run = run_script sample_ext fs_checkout 10"

definition second_run :: "error option \<times> state" where
  "second_run = run_script sample_ext (files (snd first_run)) (clock (snd first_run))"

text \<open>
  The sample collaborators on a file system whose time stamps are coarse: every write
  of a run falls into one tick. The sample state: the fragment \<open>b.json\<close>, the
  packaged file made earlier from a fragment \<open>A\<close>, its header and the digest of that
  payload, all stamped with the tick of the clock; and the state after the fluids job
  has run on it.
\<close>

definition coarse_ext :: ext where
  "coarse_ext = sample_ext\<lparr>tick := (\<lambda>t. t)\<rparr>"

definition state_tied :: state where
  "state_tied =
     \<lparr>files = [(''dev/fluids/b.json'', mk_file 5 ''B''),
               (''dev/all_fluids.json.z'', mk_file 5 ''z[A,]''),
               (''dev/.fluiddepcache'', mk_file 5 ''P''),
               (''include/all_fluids_JSON_z.h'', mk_file 5 ''header of z[A,]'')],
      clock = 5,
      hashes = [(''all_fluids_JSON_z'', JStr (hex_string ''z[A,]''))],
      written = []\<rparr>"

definition state_tied_rebuilt :: state where
  "state_tied_rebuilt = snd (fluids_job coarse_ext state_tied)"

section \<open>The hex encoding\<close>

lemma hexval_hexdigit: "hexval (hexdigit d) = Some (d mod 16)"
proof -
  have "d mod 16 < 16" by simp
  then have "d mod 16 \<in> {0..<16}" by simp
  then have "d mod 16 \<in> set [0..<16]" by simp
  then show ?thesis
    unfolding hexdigit_def hexval_def
    by (simp add: upt_rec) (elim disjE; simp)
qed

lemma map_chunks_k:
  "map (\<lambda>k. take m (drop (k * m) l)) [0 ..< n] = chunks_k m n l"
proof (induction n arbitrary: l)
  case 0 show ?case by simp
next
  case (Suc n)
  have "map (\<lambda>k. take m (drop (k * m) l)) [0 ..< Suc n]
      = take m l # map (\<lambda>k. take m (drop (k * m) (drop m l))) [0 ..< n]"
    by (simp add: map_upt_Suc add.commute del: upt_Suc)
  then show ?case using Suc.IH [of "drop m l"] by simp
qed

lemma concat_chunks_k: "length l \<le> n * m \<Longrightarrow> concat (chunks_k m n l) = l"
proof (induction n arbitrary: l)
  case 0 then show ?case by simp
next
  case (Suc n)
  have "length (drop m l) \<le> n * m" using Suc.prems by simp
  then show ?case using Suc.IH by simp
qed

lemma chunks_k_nonempty:
  "0 < m \<Longrightarrow> (n - 1) * m < length l \<Longrightarrow> c \<in> set (chunks_k m n l) \<Longrightarrow> c \<noteq> []"
proof (induction n arbitrary: l)
  case 0 then show ?case by simp
next
  case (Suc n)
  show ?case
  proof (cases "c = take m l")
    case True
    then show ?thesis using Suc.prems by auto
  next
    case False
    then have c: "c \<in> set (chunks_k m n (drop m l))" using Suc.prems by simp
    then have "n \<noteq> 0" by (cases n) auto
    then have "(n - 1) * m < length (drop m l)" using Suc.prems(2)
      by (cases n) (auto simp: algebra_simps)
    then show ?thesis using Suc.IH [OF Suc.prems(1) _ c] by simp
  qed
qed

lemma to_chunks_chunks_k:
  "to_chunks l 16 = chunks_k 16 ((length l + 15) div 16) l"
  unfolding to_chunks_def by (simp add: map_chunks_k add.commute)

lemma concat_to_chunks: "concat (to_chunks l 16) = l"
proof -
  have "length l \<le> ((length l + 15) div 16) * 16" by presburger
  then show ?thesis by (simp add: to_chunks_chunks_k concat_chunks_k)
qed

lemma to_chunks_nonempty: "c \<in> set (to_chunks l 16) \<Longrightarrow> c \<noteq> []"
proof -
  assume c: "c \<in> set (to_chunks l 16)"
  then have c': "c \<in> set (chunks_k 16 ((length l + 15) div 16) l)"
    by (simp add: to_chunks_chunks_k)
  then have "(length l + 15) div 16 \<noteq> 0" by (cases "(length l + 15) div 16") auto
  then have "((length l + 15) div 16 - 1) * 16 < length l" by presburger
  then show ?thesis using chunks_k_nonempty [OF _ _ c'] by simp
qed

lemma chunks_k_map: "chunks_k m n (map f l) = map (map f) (chunks_k m n l)"
  by (induction n arbitrary: l) (simp_all add: take_map drop_map)

lemma to_chunks_map: "to_chunks (map f l) 16 = map (map f) (to_chunks l 16)"
  by (simp add: to_chunks_chunks_k chunks_k_map)

lemma chunks_k_length: "c \<in> set (chunks_k m n l) \<Longrightarrow> length c \<le> m"
  by (induction n arbitrary: l) auto

text \<open>No line of the encoding has more than 16 literals.\<close>

lemma to_chunks_length: "c \<in> set (to_chunks l 16) \<Longrightarrow> length c \<le> 16"
  by (simp add: to_chunks_chunks_k chunks_k_length)

lemma char_of_hex:
  "char_of (16 * ((of_char c :: nat) div 16 mod 16) + (of_char c :: nat) mod 16 mod 16) = c"
proof -
  have "(of_char c :: nat) < 256" by (rule nat_of_char_less_256)
  then have "(of_char c :: nat) div 16 < 16" by arith
  then have "(of_char c :: nat) div 16 mod 16 = of_char c div 16" by simp
  then show ?thesis by simp
qed

lemma split_at_last: "c2 \<notin> set x \<Longrightarrow> split_at c1 c2 cur x = [cur @ x]"
  by (induction c1 c2 cur x rule: split_at.induct) auto

lemma split_at_sep:
  "c1 \<noteq> c2 \<Longrightarrow> c2 \<notin> set x \<Longrightarrow>
   split_at c1 c2 cur (x @ c1 # c2 # rest) = (cur @ x) # split_at c1 c2 [] rest"
proof (induction x arbitrary: cur)
  case Nil
  then show ?case by simp
next
  case (Cons a x)
  show ?case
  proof (cases x)
    case Nil
    then show ?thesis using Cons.prems Cons.IH [of "cur @ [a]"] by simp
  next
    case (Cons b x')
    then show ?thesis using Cons.prems Cons.IH [of "cur @ [a]"] by auto
  qed
qed

lemma split_at_join:
  "c1 \<noteq> c2 \<Longrightarrow> \<forall>x \<in> set (x0 # xs). c2 \<notin> set x \<Longrightarrow>
   split_at c1 c2 cur (join [c1, c2] (x0 # xs)) = (cur @ x0) # xs"
proof (induction xs arbitrary: x0 cur)
  case Nil
  then show ?case by (simp add: split_at_last)
next
  case (Cons y ys)
  have "split_at c1 c2 cur (x0 @ c1 # c2 # join [c1, c2] (y # ys))
          = (cur @ x0) # split_at c1 c2 [] (join [c1, c2] (y # ys))"
    using Cons.prems by (intro split_at_sep) simp_all
  then show ?case using Cons.IH [of y "[]"] Cons.prems by simp
qed

lemma set_join: "set (join sep xs) \<subseteq> set sep \<union> \<Union> (set ` set xs)"
  by (induction sep xs rule: join.induct) auto

lemma hexdigit_in: "hexdigit d \<in> set ''0123456789abcdef''"
  unfolding hexdigit_def by (rule nth_mem) simp

lemma hex_lit_chars: "set (hex_lit b) \<subseteq> set ''0123456789abcdefx''"
  using hexdigit_in [of "of_char b div 16"] hexdigit_in [of "of_char b mod 16"]
  by (auto simp: hex_lit_def)

lemma hex_lit_no_blank: "CHR '' '' \<notin> set (hex_lit b)" "CHR 0x0A \<notin> set (hex_lit b)"
  using hex_lit_chars [of b] by auto


lemma parse_hex_lit: "parse_literal (hex_lit b) = Some b"
  using char_of_hex [of b] by (simp add: parse_literal_def hex_lit_def hexval_hexdigit)

lemma those_parse: "those (map parse_literal (map hex_lit cs)) = Some cs"
  by (induction cs) (simp_all add: parse_hex_lit)

lemma line_no_newline: "CHR 0x0A \<notin> set (join '', '' (map hex_lit cs))"
  using set_join [of "'', ''" "map hex_lit cs"] hex_lit_no_blank(2) by auto

lemma split_line:
  "cs \<noteq> [] \<Longrightarrow> split_at (CHR '','') (CHR '' '') [] (join '', '' (map hex_lit cs)) = map hex_lit cs"
proof -
  assume "cs \<noteq> []"
  then obtain c cs' where cs: "cs = c # cs'" by (cases cs) auto
  have "split_at (CHR '','') (CHR '' '') [] (join [CHR '','', CHR '' ''] (hex_lit c # map hex_lit cs'))
        = ([] @ hex_lit c) # map hex_lit cs'"
    by (rule split_at_join) (auto simp: hex_lit_no_blank)
  then show ?thesis by (simp add: cs)
qed

lemma split_lines_join:
  assumes "css \<noteq> []" and "\<forall>cs \<in> set css. cs \<noteq> []"
  shows "split_lines (join [CHR '','', CHR 0x0A] (map (join '', '') (map (map hex_lit) css)))
           = map (map hex_lit) css"
proof -
  obtain d ds where css: "css = d # ds" using assms(1) by (cases css) auto
  let ?lines = "map (\<lambda>cs. join '', '' (map hex_lit cs)) css"
  have "split_at (CHR '','') (CHR 0x0A) []
          (join [CHR '','', CHR 0x0A] (join '', '' (map hex_lit d) # map (\<lambda>cs. join '', '' (map hex_lit cs)) ds))
        = ([] @ join '', '' (map hex_lit d)) # map (\<lambda>cs. join '', '' (map hex_lit cs)) ds"
    by (rule split_at_join) (auto simp: line_no_newline)
  then have 1: "split_at (CHR '','') (CHR 0x0A) [] (join [CHR '','', CHR 0x0A] ?lines) = ?lines"
    by (simp add: css)
  have 2: "map (split_at (CHR '','') (CHR '' '') []) ?lines = map (map hex_lit) css"
    using assms(2) by (simp add: split_line)
  have "map (join '', '') (map (map hex_lit) css) = ?lines" by simp
  then show ?thesis unfolding split_lines_def using 1 2 by (simp only:)
qed

lemma chunks_k_full:
  "0 < n \<Longrightarrow> (n - 1) * m < length l \<Longrightarrow> list_all (\<lambda>c. length c = m) (butlast (chunks_k m n l))"
proof (induction n arbitrary: l)
  case 0 then show ?case by simp
next
  case (Suc n)
  show ?case
  proof (cases n)
    case 0
    then show ?thesis by simp
  next
    case (Suc k)
    then have len: "m \<le> length l" using Suc.prems(2) by simp
    have "(n - 1) * m < length (drop m l)" using Suc.prems(2) Suc by simp
    then have "list_all (\<lambda>c. length c = m) (butlast (chunks_k m n (drop m l)))"
      using Suc.IH [of "drop m l"] Suc by simp
    moreover have "chunks_k m n (drop m l) \<noteq> []" using Suc by simp
    ultimately show ?thesis using len by simp
  qed
qed

lemma to_chunks_lines:
  assumes "l \<noteq> []"
  shows "to_chunks l 16 \<noteq> []"
    and "list_all (\<lambda>c. length c = 16) (butlast (to_chunks l 16))"
    and "1 \<le> length (last (to_chunks l 16))" and "length (last (to_chunks l 16)) \<le> 16"
proof -
  let ?n = "(length l + 15) div 16"
  have n: "0 < ?n" using assms by (cases l) auto
  have lt: "(?n - 1) * 16 < length l" using n by presburger
  show ne: "to_chunks l 16 \<noteq> []"
    using concat_to_chunks [of l] assms by auto
  show "list_all (\<lambda>c. length c = 16) (butlast (to_chunks l 16))"
    unfolding to_chunks_chunks_k by (rule chunks_k_full [OF n lt])
  have "last (to_chunks l 16) \<in> set (to_chunks l 16)" using ne by simp
  then show "1 \<le> length (last (to_chunks l 16))" "length (last (to_chunks l 16)) \<le> 16"
    using to_chunks_nonempty [of "last (to_chunks l 16)" l]
          to_chunks_length [of "last (to_chunks l 16)" l]
    by (simp_all add: Suc_le_eq)
qed

text \<open>
  C9. The encoder writes the literals of the bytes and one terminating \<open>0x00\<close>, every
  literal being \<open>0x\<close> and the two lowercase hex digits of its byte; cut at each comma
  followed by a line feed and then at each comma followed by a blank, its text gives
  back exactly the lines of literals, every line but the last with 16 literals and the
  last with 1 to 16; and decoding (which accepts this layout only, parses the literals
  and drops the terminating zero byte) gives the bytes back, whatever they are. The
  encoder is the same in the loop over the compressed payloads and in the loop over the
  JSON payloads.
\<close>

theorem hex_string_roundtrip:
  "(let lits = map hex_lit bs @ [''0x00'']; ls = to_chunks lits 16
    in hex_string bs = join [CHR '','', CHR 0x0A] (map (join '', '') ls)
       \<and> split_lines (hex_string bs) = ls
       \<and> concat ls = lits
       \<and> list_all (\<lambda>l. length l = 16) (butlast ls)
       \<and> 1 \<le> length (last ls) \<and> length (last ls) \<le> 16)
   \<and> length (hex_lit b) = 4 \<and> parse_literal (hex_lit b) = Some b
   \<and> decode_hex_string (hex_string bs) = Some bs"
proof -
  let ?cs = "bs @ [CHR 0x00]"
  let ?lits = "map hex_lit bs @ [''0x00'']"
  have lits: "?lits = map hex_lit ?cs"
    by (simp add: hex_lit_def hexdigit_def)
  have ch: "to_chunks ?lits 16 = map (map hex_lit) (to_chunks ?cs 16)"
    unfolding lits by (rule to_chunks_map)
  note tl = to_chunks_lines [of ?lits, simplified]
  have ne: "to_chunks ?cs 16 \<noteq> []" using tl(1) unfolding ch by simp
  have sl: "split_lines (hex_string bs) = to_chunks ?lits 16"
    unfolding hex_string_def ch
    using split_lines_join [OF ne] to_chunks_nonempty [of _ ?cs] by blast
  have cc: "concat (to_chunks ?lits 16) = ?lits" by (rule concat_to_chunks)
  have "those (map parse_literal ?lits) = Some ?cs"
    unfolding lits by (rule those_parse)
  then have "those (map parse_literal (concat (to_chunks ?lits 16))) = Some ?cs"
    by (simp only: cc)
  then have dec: "decode_hex_string (hex_string bs) = Some bs"
    unfolding decode_hex_string_def sl using tl by (simp add: Let_def)
  show ?thesis
    using sl cc tl dec parse_hex_lit [of b]
    by (simp add: Let_def hex_string_def hex_lit_def)
qed

theorem hex_string_roundtrip_witness:
  "hex_string ''ABCDEFGHIJKLMNOPQ''
     = ''0x41, 0x42, 0x43, 0x44, 0x45, 0x46, 0x47, 0x48, 0x49, 0x4a, 0x4b, 0x4c, 0x4d, 0x4e, 0x4f, 0x50,''
       @ [CHR 0x0A] @ ''0x51, 0x00''
   \<and> map length (split_lines (hex_string ''ABCDEFGHIJKLMNOPQ'')) = [16, 2]
   \<and> parse_literal (hex_lit (CHR ''J'')) = Some (CHR ''J'')
   \<and> decode_hex_string (hex_string ''ABCDEFGHIJKLMNOPQ'') = Some ''ABCDEFGHIJKLMNOPQ''"
proof -
  have e: "hex_string ''ABCDEFGHIJKLMNOPQ''
     = ''0x41, 0x42, 0x43, 0x44, 0x45, 0x46, 0x47, 0x48, 0x49, 0x4a, 0x4b, 0x4c, 0x4d, 0x4e, 0x4f, 0x50,''
       @ [CHR 0x0A] @ ''0x51, 0x00''"
    by code_simp
  have l: "map length (split_lines (hex_string ''ABCDEFGHIJKLMNOPQ'')) = [16, 2]"
    by code_simp
  note t = hex_string_roundtrip [of "''ABCDEFGHIJKLMNOPQ''" "CHR ''J''"]
  have p: "parse_literal (hex_lit (CHR ''J'')) = Some (CHR ''J'')"
    by (rule t [THEN conjunct2, THEN conjunct2, THEN conjunct1])
  have d: "decode_hex_string (hex_string ''ABCDEFGHIJKLMNOPQ'') = Some ''ABCDEFGHIJKLMNOPQ''"
    by (rule t [THEN conjunct2, THEN conjunct2, THEN conjunct2])
  show ?thesis by (intro conjI e l p d)
qed


section \<open>The staleness check of the embed jobs\<close>

text \<open>
  C10. When the output file does not exist, \<open>needs_build\<close> answers \<open>True\<close> without
  looking at the input; it raises exactly when the output exists and the input does not.
\<close>

theorem needs_build_missing_input:
  "(\<not> exists_file fs outpath \<longrightarrow> needs_build fs inpath outpath = Inr True) \<and>
   ((\<exists>e. needs_build fs inpath outpath = Inl e)
      \<longleftrightarrow> exists_file fs outpath \<and> \<not> exists_file fs inpath)"
  by (auto simp: needs_build_def exists_file_def split: option.splits)

theorem needs_build_missing_input_witness:
  "\<not> exists_file [] ''include/all_fluids_JSON.h''
   \<and> \<not> exists_file [] ''dev/all_fluids.json''
   \<and> needs_build [] ''dev/all_fluids.json'' ''include/all_fluids_JSON.h'' = Inr True
   \<and> \<not> (\<exists>e. needs_build [] ''dev/all_fluids.json'' ''include/all_fluids_JSON.h'' = Inl e)"
  using needs_build_missing_input [of "[]" "''include/all_fluids_JSON.h''" "''dev/all_fluids.json''"]
  by (simp add: exists_file_def)

text \<open>
  The check as the code has it: stale exactly when the output does not exist or the
  input exists and is strictly newer than the output; fresh exactly when both exist and
  the input is not newer, equal times included.
\<close>

lemma needs_build_strict:
  "(needs_build fs inpath outpath = Inr True
      \<longleftrightarrow> map_of fs outpath = None
          \<or> (\<exists>i out. map_of fs inpath = Some i \<and> map_of fs outpath = Some out \<and> mtime out < mtime i))
   \<and> (needs_build fs inpath outpath = Inr False
      \<longleftrightarrow> (\<exists>i out. map_of fs inpath = Some i \<and> map_of fs outpath = Some out \<and> mtime i \<le> mtime out))"
  by (auto simp: needs_build_def split: option.splits)

text \<open>
  C6 on the code. All time stamps fall into one tick. The fluids job finds its source
  not older than the packaged file (the comparison there is \<open>>=\<close>) and packages again:
  the payload changes from \<open>z[A,]\<close> to \<open>z[B,]\<close>. The input of the embed job and its
  header now carry the same time; the check of the embed job, which compares with
  \<open>>\<close>, answers fresh, and the job leaves the header of the old payload and the old
  digest in place.
\<close>

theorem equal_mtime_keeps_stale_header:
  "map_option content (map_of (files state_tied) ''dev/all_fluids.json.z'') = Some ''z[A,]''
   \<and> fst (fluids_job coarse_ext state_tied) = None
   \<and> map_option content (map_of (files state_tied_rebuilt) ''dev/all_fluids.json.z'') = Some ''z[B,]''
   \<and> map_option mtime (map_of (files state_tied_rebuilt) ''dev/all_fluids.json.z'') = Some 5
   \<and> map_option mtime (map_of (files state_tied_rebuilt) ''include/all_fluids_JSON_z.h'') = Some 5
   \<and> needs_build (files state_tied_rebuilt) ''dev/all_fluids.json.z'' ''include/all_fluids_JSON_z.h''
        = Inr False
   \<and> hash_differs (hashes state_tied_rebuilt) ''all_fluids_JSON_z''
        (get_hash coarse_ext (hex_string ''z[B,]''))
   \<and> embed_incbin coarse_ext job_z state_tied_rebuilt = (None, state_tied_rebuilt)
   \<and> map_option content (map_of (files state_tied_rebuilt) ''include/all_fluids_JSON_z.h'')
        = Some ''header of z[A,]''"
  by code_simp

theorem equal_mtime_keeps_stale_header_witness:
  "exists_file (files state_tied_rebuilt) ''include/all_fluids_JSON_z.h''
   \<and> exists_file (files state_tied_rebuilt) ''dev/all_fluids.json.z''
   \<and> snd (embed_incbin coarse_ext job_z state_tied_rebuilt) = state_tied_rebuilt"
proof -
  note t = equal_mtime_keeps_stale_header
  have a: "map_option mtime (map_of (files state_tied_rebuilt) ''dev/all_fluids.json.z'') = Some 5"
    and b: "map_option mtime (map_of (files state_tied_rebuilt) ''include/all_fluids_JSON_z.h'') = Some 5"
    and c: "embed_incbin coarse_ext job_z state_tied_rebuilt = (None, state_tied_rebuilt)"
    using t by blast+
  show ?thesis using a b c by (auto simp: exists_file_def)
qed

section \<open>The write gate of the embed jobs\<close>

lemma embed_incbin_gate:
  "let s' = snd (embed_incbin E (infile, outfile, variable) s) in
       (written s' \<noteq> written s \<longrightarrow>
            written s' = written s @ [''include/'' @ outfile]
            \<and> (\<not> exists_file (files s) (''include/'' @ outfile)
               \<or> (\<exists>f. map_of (files s) (''dev/'' @ infile) = Some f
                    \<and> map_of (hashes s) variable \<noteq> Some (JStr (get_hash E (hex_string (content f)))))))
       \<and> (exists_file (files s) (''include/'' @ outfile)
            \<and> (\<forall>f. map_of (files s) (''dev/'' @ infile) = Some f
                  \<longrightarrow> map_of (hashes s) variable = Some (JStr (get_hash E (hex_string (content f)))))
          \<longrightarrow> s' = s)"
  unfolding embed_incbin_def
  by (auto simp: Let_def hash_differs_def write_file_def exists_file_def
           split: sum.splits bool.splits option.splits)

lemma embed_json_gate:
  "let s' = snd (embed_json E (infile, outfile, variable) s) in
       (written s' \<noteq> written s \<longrightarrow>
            written s' = written s @ [''include/'' @ outfile]
            \<and> (\<not> exists_file (files s) (''include/'' @ outfile)
               \<or> (\<exists>f. map_of (files s) (''dev/'' @ infile) = Some f
                    \<and> map_of (hashes s) variable \<noteq> Some (JStr (get_hash E (hex_string (read_text (content f))))))))
       \<and> (exists_file (files s) (''include/'' @ outfile)
            \<and> (\<forall>f. map_of (files s) (''dev/'' @ infile) = Some f
                  \<longrightarrow> map_of (hashes s) variable = Some (JStr (get_hash E (hex_string (read_text (content f))))))
          \<longrightarrow> s' = s)"
  unfolding embed_json_def
  by (auto simp: Let_def hash_differs_def write_file_def exists_file_def
           split: sum.splits bool.splits option.splits)

text \<open>
  C2, as stated, fails: with the header missing, the job writes it although the stored
  digest equals the digest of the encoded payload.
\<close>

theorem embed_writes_missing_header_counterexample:
  "map_of (files state_no_header) ''dev/all_fluids.json.z'' = Some (mk_file 1 ''z'')
   \<and> map_of (hashes state_no_header) ''all_fluids_JSON_z''
       = Some (JStr (get_hash sample_ext (hex_string (content (mk_file 1 ''z'')))))
   \<and> written (snd (embed_incbin sample_ext job_z state_no_header))
       = [''include/all_fluids_JSON_z.h'']"
  by code_simp

text \<open>
  C2, amended. An embed job of either loop writes at most its destination, and writes
  it only if the destination does not exist or the digest stored under its symbol name
  is absent or differs from the digest of the encoded payload (the bytes of the input
  in the loop over \<open>zvalues\<close>, its text in the loop over \<open>values\<close>). When the destination
  exists and the stored digest is that of the encoded payload, the job changes nothing:
  no file, no digest, no write, whatever the timestamps say.
\<close>

theorem embed_write_gate:
  "(let s' = snd (embed_incbin E (infile, outfile, variable) s) in
       (written s' \<noteq> written s \<longrightarrow>
            written s' = written s @ [''include/'' @ outfile]
            \<and> (\<not> exists_file (files s) (''include/'' @ outfile)
               \<or> (\<exists>f. map_of (files s) (''dev/'' @ infile) = Some f
                    \<and> map_of (hashes s) variable \<noteq> Some (JStr (get_hash E (hex_string (content f)))))))
       \<and> (exists_file (files s) (''include/'' @ outfile)
            \<and> (\<forall>f. map_of (files s) (''dev/'' @ infile) = Some f
                  \<longrightarrow> map_of (hashes s) variable = Some (JStr (get_hash E (hex_string (content f)))))
          \<longrightarrow> s' = s))
   \<and> (let s' = snd (embed_json E (infile, outfile, variable) s) in
       (written s' \<noteq> written s \<longrightarrow>
            written s' = written s @ [''include/'' @ outfile]
            \<and> (\<not> exists_file (files s) (''include/'' @ outfile)
               \<or> (\<exists>f. map_of (files s) (''dev/'' @ infile) = Some f
                    \<and> map_of (hashes s) variable \<noteq> Some (JStr (get_hash E (hex_string (read_text (content f))))))))
       \<and> (exists_file (files s) (''include/'' @ outfile)
            \<and> (\<forall>f. map_of (files s) (''dev/'' @ infile) = Some f
                  \<longrightarrow> map_of (hashes s) variable = Some (JStr (get_hash E (hex_string (read_text (content f))))))
          \<longrightarrow> s' = s))"
  using embed_incbin_gate [of E infile outfile variable s]
        embed_json_gate [of E infile outfile variable s]
  by simp

theorem embed_write_gate_witness:
  "written (snd (embed_incbin sample_ext job_z state_no_header)) \<noteq> written state_no_header
   \<and> written (snd (embed_json sample_ext job_z state_no_header)) \<noteq> written state_no_header
   \<and> \<not> exists_file (files state_no_header) ''include/all_fluids_JSON_z.h''
   \<and> exists_file (files state_old_header) ''include/all_fluids_JSON_z.h''
   \<and> needs_build (files state_old_header) ''dev/all_fluids.json.z'' ''include/all_fluids_JSON_z.h''
       = Inr True
   \<and> map_of (files state_old_header) ''dev/all_fluids.json.z'' = Some (mk_file 9 ''z'')
   \<and> map_of (hashes state_old_header) ''all_fluids_JSON_z''
       = Some (JStr (get_hash sample_ext (hex_string (content (mk_file 9 ''z'')))))
   \<and> snd (embed_incbin sample_ext job_z state_old_header) = state_old_header
   \<and> snd (embed_json sample_ext job_z state_old_header) = state_old_header"
proof -
  have a: "written (snd (embed_incbin sample_ext job_z state_no_header)) \<noteq> written state_no_header"
    by code_simp
  have b: "written (snd (embed_json sample_ext job_z state_no_header)) \<noteq> written state_no_header"
    by code_simp
  have c: "\<not> exists_file (files state_no_header) ''include/all_fluids_JSON_z.h''"
    by code_simp
  have d: "exists_file (files state_old_header) ''include/all_fluids_JSON_z.h''"
    by code_simp
  have e: "needs_build (files state_old_header) ''dev/all_fluids.json.z'' ''include/all_fluids_JSON_z.h''
       = Inr True"
    by code_simp
  have f: "\<forall>f. map_of (files state_old_header) ''dev/all_fluids.json.z'' = Some f
         \<longrightarrow> map_of (hashes state_old_header) ''all_fluids_JSON_z''
               = Some (JStr (get_hash sample_ext (hex_string (content f))))"
    by (simp add: state_old_header_def get_hash_def sample_ext_def mk_file_def)
  have g: "map_of (files state_old_header) ''dev/all_fluids.json.z'' = Some (mk_file 9 ''z'')"
    by code_simp
  have h: "map_of (hashes state_old_header) ''all_fluids_JSON_z''
       = Some (JStr (get_hash sample_ext (hex_string (content (mk_file 9 ''z'')))))"
    by code_simp
  have t: "read_text (content (mk_file 9 ''z'')) = content (mk_file 9 ''z'')"
    by (simp add: mk_file_def)
  show ?thesis
    using a b c d e f g h t
      embed_write_gate [of sample_ext "''all_fluids.json.z''" "''all_fluids_JSON_z.h''"
                           "''all_fluids_JSON_z''" state_no_header]
      embed_write_gate [of sample_ext "''all_fluids.json.z''" "''all_fluids_JSON_z.h''"
                           "''all_fluids_JSON_z''" state_old_header]
    by (simp add: job_z_def Let_def)
qed

section \<open>The staleness check of the aggregation jobs\<close>

lemma newer_source_none:
  "\<forall>p \<in> set ps. \<exists>f. map_of fs p = Some f \<and> mtime f < d \<Longrightarrow> newer_source fs d ps = (Inr None, [])"
  by (induction ps) auto

text \<open>
  With a list for \<open>sources\<close>, as the annotation of the constructor has it, the last
  step compares the sorted sources with the recorded ones.
\<close>

lemma list_compares_sources:
  assumes "sources dm = PyList ps"
    and "map_of fs (destination dm) = Some dest"
    and "map_of fs (cachefile dm) = Some cache"
    and "\<forall>p \<in> set ps. \<exists>f. map_of fs p = Some f \<and> mtime f < mtime dest"
    and "pickle_loads E (content cache) = Some previous_sources"
  shows "fst (DependencyManager_needs_build E fs dm)
           = (if sort ps \<noteq> previous_sources then Inr (True, ''source list has changed'')
              else Inr (False, []))"
  using assms newer_source_none [of ps fs "mtime dest"]
  by (auto simp: DependencyManager_needs_build_def Let_def)

text \<open>
  With a generator, as \<open>combine_json\<close> passes it, the loop over the sources has used it
  up when the last step is reached: the recorded sources are compared with the empty list.
\<close>

lemma generator_compares_nothing:
  assumes "sources dm = PyGenerator ps"
    and "map_of fs (destination dm) = Some dest"
    and "map_of fs (cachefile dm) = Some cache"
    and "\<forall>p \<in> set ps. \<exists>f. map_of fs p = Some f \<and> mtime f < mtime dest"
    and "pickle_loads E (content cache) = Some previous_sources"
  shows "fst (DependencyManager_needs_build E fs dm)
           = (if previous_sources \<noteq> [] then Inr (True, ''source list has changed'')
              else Inr (False, []))"
  using assms newer_source_none [of ps fs "mtime dest"]
  by (auto simp: DependencyManager_needs_build_def Let_def)

text \<open>
  C3, step 4, on the code. The destination and the cache file exist, the only source is
  older than the destination, and the cache file records exactly the current sorted
  sources: the evaluator that \<open>combine_json\<close> builds answers stale, "source list has
  changed". The same evaluator with the sources as a list answers fresh.
\<close>

theorem same_sources_reported_changed:
  "path_glob fs_same_sources ''dev/fluids'' = [''dev/fluids/a.json'']
   \<and> map_option mtime (map_of fs_same_sources ''dev/fluids/a.json'') = Some 1
   \<and> map_option mtime (map_of fs_same_sources ''dev/all_fluids.json.z'') = Some 5
   \<and> map_option (pickle_loads sample_ext \<circ> content) (map_of fs_same_sources ''dev/.fluiddepcache'')
        = Some (Some (sort [''dev/fluids/a.json'']))
   \<and> fst (DependencyManager_needs_build sample_ext fs_same_sources (depfluids_of fs_same_sources))
        = Inr (True, ''source list has changed'')
   \<and> fst (DependencyManager_needs_build sample_ext fs_same_sources
             ((depfluids_of fs_same_sources)\<lparr>sources := PyList [''dev/fluids/a.json'']\<rparr>))
        = Inr (False, [])"
  by code_simp

text \<open>
  C4 on the code. The fluids job runs twice on three fragments and succeeds both times;
  the second run records the empty source list. The fragment \<open>c.json\<close> is then
  removed; the two that remain are older than the destination. The evaluator answers
  fresh: the removal is not detected.
\<close>

theorem removed_fragment_not_detected:
  "fst (fluids_job sample_ext (fresh_state fs_three 10)) = None
   \<and> fst (fluids_job sample_ext (snd (fluids_job sample_ext (fresh_state fs_three 10)))) = None
   \<and> path_glob c_removed ''dev/fluids'' = [''dev/fluids/a.json'', ''dev/fluids/b.json'']
   \<and> map_option (pickle_loads sample_ext \<circ> content) (map_of c_removed ''dev/.fluiddepcache'')
        = Some (Some [])
   \<and> fst (DependencyManager_needs_build sample_ext c_removed (depfluids_of c_removed))
        = Inr (False, [])"
  by code_simp

section \<open>The aggregation jobs\<close>

text \<open>The fluids job does nothing when its evaluator answers fresh.\<close>

lemma fluids_job_fresh:
  "fst (DependencyManager_needs_build E (files s) (depfluids_of (files s))) = Inr (False, r)
   \<Longrightarrow> fluids_job E s = (None, s)"
  by (auto simp: fluids_job_def split: prod.splits sum.splits)

text \<open>
  C5 on the code. The evaluator of the incompressibles job answers fresh, and the job
  writes its two outputs and its cache file all the same.
\<close>

theorem incomp_job_runs_when_fresh:
  "fst (DependencyManager_needs_build sample_ext fs_incomp_fresh (depincomp_of fs_incomp_fresh))
     = Inr (False, [])
   \<and> fst (incomp_job sample_ext (fresh_state fs_incomp_fresh 10)) = None
   \<and> written (snd (incomp_job sample_ext (fresh_state fs_incomp_fresh 10)))
     = [''dev/all_incompressibles_verbose.json'', ''dev/all_incompressibles.json'',
        ''dev/.incompdepcache'']"
  by code_simp

section \<open>Corrupt caches\<close>

text \<open>
  A \<open>hashes.json\<close> on which \<open>json.load\<close> raises \<open>JSONDecodeError\<close> gives the
  empty dictionary; one whose bytes are not text makes the import fail.
\<close>

lemma load_hashes_corrupt:
  "map_of fs hashes_fname = Some f \<Longrightarrow> json_loads E (content f) = None
   \<Longrightarrow> load_hashes E fs
         = (if text_decodes E (content f) then Inr (JObj []) else Inl (UnicodeError hashes_fname))"
  by (simp add: load_hashes_def)

text \<open>
  C7 on the code. The cache file of the fluids job does not unpickle, the destination
  exists and the source is older: the run ends with the exception of \<open>pickle.load\<close>,
  and the aggregation outputs, the headers and \<open>hashes.json\<close> are not written.
\<close>

theorem corrupt_manifest_aborts:
  "map_option (pickle_loads sample_ext \<circ> content) (map_of fs_corrupt_cache ''dev/.fluiddepcache'')
     = Some None
   \<and> fst (run_script sample_ext fs_corrupt_cache 10) = Some (UnpicklingError ''dev/.fluiddepcache'')
   \<and> written (snd (run_script sample_ext fs_corrupt_cache 10))
     = [''include/cpversion.h'', ''.version'', ''include/gitrevision.h'']"
  by code_simp

section \<open>Malformed fragments\<close>

lemma glob_glob_exists: "p \<in> set (glob_glob fs dir) \<Longrightarrow> map_of fs p \<noteq> None"
  by (auto simp: glob_glob_def map_of_eq_None_iff image_iff)

lemma load_fragments_fails:
  assumes "\<forall>p \<in> set ps. map_of fs p \<noteq> None"
    and "\<exists>p \<in> set ps. \<exists>f. map_of fs p = Some f \<and> json_loads E (content f) = None"
  shows "\<exists>q \<in> set ps. \<exists>g. map_of fs q = Some g \<and> json_loads E (content g) = None
            \<and> load_fragments E fs ps = Inl (ValueError (''unable to decode file '' @ q))"
  using assms
proof (induction ps)
  case Nil then show ?case by simp
next
  case (Cons p ps)
  then obtain f where f: "map_of fs p = Some f" by auto
  show ?case
  proof (cases "json_loads E (content f)")
    case None
    then show ?thesis using f by auto
  next
    case (Some j)
    then have "\<exists>p \<in> set ps. \<exists>f. map_of fs p = Some f \<and> json_loads E (content f) = None"
      using Cons.prems f by auto
    then obtain q g where "q \<in> set ps" "map_of fs q = Some g" "json_loads E (content g) = None"
      "load_fragments E fs ps = Inl (ValueError (''unable to decode file '' @ q))"
      using Cons.IH Cons.prems by auto
    then show ?thesis using f Some by auto
  qed
qed

lemma load_glob_fails:
  assumes "\<exists>p \<in> set (glob_glob fs dir). \<exists>f. map_of fs p = Some f \<and> json_loads E (content f) = None"
  shows "\<exists>q \<in> set (glob_glob fs dir). \<exists>g. map_of fs q = Some g \<and> json_loads E (content g) = None
            \<and> load_fragments E fs (glob_glob fs dir) = Inl (ValueError (''unable to decode file '' @ q))"
  using load_fragments_fails [OF _ assms] glob_glob_exists by blast

text \<open>
  C8. When an aggregation job runs its body (the fluids job when its evaluator answers
  stale, the incompressibles job whenever its evaluator returns) and one of the files
  that \<open>glob.glob\<close> enumerates does not decode as JSON, the job raises
  \<open>ValueError\<close> with a message that names a file of the enumeration that does not
  decode, and the state is the one before the job: nothing is written.
\<close>

theorem malformed_fragment_aborts:
  "(fst (DependencyManager_needs_build E (files s) (depfluids_of (files s))) = Inr (True, reason)
      \<and> (\<exists>p \<in> set (glob_glob (files s) ''dev/fluids'').
            \<exists>f. map_of (files s) p = Some f \<and> json_loads E (content f) = None)
     \<longrightarrow> (\<exists>q \<in> set (glob_glob (files s) ''dev/fluids'').
            \<exists>g. map_of (files s) q = Some g \<and> json_loads E (content g) = None
              \<and> fluids_job E s = (Some (ValueError (''unable to decode file '' @ q)), s)))
   \<and> (fst (DependencyManager_needs_build E (files s) (depincomp_of (files s))) = Inr answer
      \<and> (\<exists>p \<in> set (glob_glob (files s) ''dev/incompressible_liquids/json'').
            \<exists>f. map_of (files s) p = Some f \<and> json_loads E (content f) = None)
     \<longrightarrow> (\<exists>q \<in> set (glob_glob (files s) ''dev/incompressible_liquids/json'').
            \<exists>g. map_of (files s) q = Some g \<and> json_loads E (content g) = None
              \<and> incomp_job E s = (Some (ValueError (''unable to decode file '' @ q)), s)))"
proof (intro conjI impI)
  assume a: "fst (DependencyManager_needs_build E (files s) (depfluids_of (files s))) = Inr (True, reason)
      \<and> (\<exists>p \<in> set (glob_glob (files s) ''dev/fluids'').
            \<exists>f. map_of (files s) p = Some f \<and> json_loads E (content f) = None)"
  then obtain q g where q: "q \<in> set (glob_glob (files s) ''dev/fluids'')"
      "map_of (files s) q = Some g" "json_loads E (content g) = None"
      "load_fragments E (files s) (glob_glob (files s) ''dev/fluids'')
         = Inl (ValueError (''unable to decode file '' @ q))"
    using load_glob_fails [of "files s" "''dev/fluids''" E] by blast
  obtain dm where "DependencyManager_needs_build E (files s) (depfluids_of (files s))
      = (Inr (True, reason), dm)"
    using a by (cases "DependencyManager_needs_build E (files s) (depfluids_of (files s))") auto
  then have "fluids_job E s = (Some (ValueError (''unable to decode file '' @ q)), s)"
    using q(4) by (simp add: fluids_job_def package_fluids_def)
  then show "\<exists>q \<in> set (glob_glob (files s) ''dev/fluids'').
            \<exists>g. map_of (files s) q = Some g \<and> json_loads E (content g) = None
              \<and> fluids_job E s = (Some (ValueError (''unable to decode file '' @ q)), s)"
    using q by blast
next
  assume a: "fst (DependencyManager_needs_build E (files s) (depincomp_of (files s))) = Inr answer
      \<and> (\<exists>p \<in> set (glob_glob (files s) ''dev/incompressible_liquids/json'').
            \<exists>f. map_of (files s) p = Some f \<and> json_loads E (content f) = None)"
  then obtain q g where q: "q \<in> set (glob_glob (files s) ''dev/incompressible_liquids/json'')"
      "map_of (files s) q = Some g" "json_loads E (content g) = None"
      "load_fragments E (files s) (glob_glob (files s) ''dev/incompressible_liquids/json'')
         = Inl (ValueError (''unable to decode file '' @ q))"
    using load_glob_fails [of "files s" "''dev/incompressible_liquids/json''" E] by blast
  obtain dm where "DependencyManager_needs_build E (files s) (depincomp_of (files s))
      = (Inr answer, dm)"
    using a by (cases "DependencyManager_needs_build E (files s) (depincomp_of (files s))") auto
  then have "incomp_job E s = (Some (ValueError (''unable to decode file '' @ q)), s)"
    using q(4) by (simp add: incomp_job_def package_incomp_def)
  then show "\<exists>q \<in> set (glob_glob (files s) ''dev/incompressible_liquids/json'').
            \<exists>g. map_of (files s) q = Some g \<and> json_loads E (content g) = None
              \<and> incomp_job E s = (Some (ValueError (''unable to decode file '' @ q)), s)"
    using q by blast
qed

theorem malformed_fragment_aborts_witness:
  "fst (DependencyManager_needs_build sample_ext fs_malformed (depfluids_of fs_malformed))
     = Inr (True, ''destination does not exist'')
   \<and> ''dev/fluids/b.json'' \<in> set (glob_glob fs_malformed ''dev/fluids'')
   \<and> map_option (json_loads sample_ext \<circ> content) (map_of fs_malformed ''dev/fluids/b.json'') = Some None
   \<and> fluids_job sample_ext (fresh_state fs_malformed 10)
       = (Some (ValueError ''unable to decode file dev/fluids/b.json''), fresh_state fs_malformed 10)
   \<and> fst (DependencyManager_needs_build sample_ext fs_malformed (depincomp_of fs_malformed))
     = Inr (True, ''destination does not exist'')
   \<and> ''dev/incompressible_liquids/json/w.json''
       \<in> set (glob_glob fs_malformed ''dev/incompressible_liquids/json'')
   \<and> map_option (json_loads sample_ext \<circ> content)
        (map_of fs_malformed ''dev/incompressible_liquids/json/w.json'') = Some None
   \<and> incomp_job sample_ext (fresh_state fs_malformed 10)
       = (Some (ValueError ''unable to decode file dev/incompressible_liquids/json/w.json''),
          fresh_state fs_malformed 10)"
proof -
  have nb1: "fst (DependencyManager_needs_build sample_ext fs_malformed (depfluids_of fs_malformed))
     = Inr (True, ''destination does not exist'')" by code_simp
  have nb2: "fst (DependencyManager_needs_build sample_ext fs_malformed (depincomp_of fs_malformed))
     = Inr (True, ''destination does not exist'')" by code_simp
  have g1: "glob_glob fs_malformed ''dev/fluids'' = [''dev/fluids/a.json'', ''dev/fluids/b.json'']"
    by code_simp
  have g2: "glob_glob fs_malformed ''dev/incompressible_liquids/json''
     = [''dev/incompressible_liquids/json/w.json'']" by code_simp
  have l1: "map_option (json_loads sample_ext \<circ> content) (map_of fs_malformed ''dev/fluids/a.json'')
      = Some (Some (JStr ''A''))" by code_simp
  have l2: "map_option (json_loads sample_ext \<circ> content) (map_of fs_malformed ''dev/fluids/b.json'')
      = Some None" by code_simp
  have l3: "map_option (json_loads sample_ext \<circ> content)
        (map_of fs_malformed ''dev/incompressible_liquids/json/w.json'') = Some None" by code_simp
  have fl: "files (fresh_state fs_malformed 10) = fs_malformed" by (simp add: fresh_state_def)
  show ?thesis
    using malformed_fragment_aborts [of sample_ext "fresh_state fs_malformed 10"
            "''destination does not exist''" "(True, ''destination does not exist'')"]
      nb1 nb2 l1 l2 l3
    unfolding fl g1 g2
    by auto
qed

section \<open>What each step may change\<close>

lemma frame_refl: "frame W K s s"
  by (simp add: frame_def)

lemma frame_trans: "frame W K s s' \<Longrightarrow> frame W K s' s'' \<Longrightarrow> frame W K s s''"
  unfolding frame_def by (elim conjE exE) (intro conjI; auto)

lemma frame_mono: "frame W K s s' \<Longrightarrow> W \<subseteq> W' \<Longrightarrow> K \<subseteq> K' \<Longrightarrow> frame W' K' s s'"
  unfolding frame_def by blast

lemma frame_write: "p \<in> W \<Longrightarrow> frame W K s (write_file E p c s)"
  by (auto simp: frame_def write_file_def update_conv')

lemma frame_hash: "k \<in> K \<Longrightarrow> frame W K s (s\<lparr>hashes := AList.update k v (hashes s)\<rparr>)"
  by (auto simp: frame_def update_conv')

lemma frame_write_hash:
  "p \<in> W \<Longrightarrow> k \<in> K \<Longrightarrow>
   frame W K s ((write_file E p c s)\<lparr>hashes := AList.update k v (hashes (write_file E p c s))\<rparr>)"
  by (auto simp: frame_def write_file_def update_conv')

lemma frame_version:
  "frame {''include/cpversion.h'', ''.version''} {''version''} s (version_to_file E s)"
proof -
  let ?W = "{''include/cpversion.h'', ''.version''}" and ?K = "{''version''}"
  have w: "\<And>s c. frame ?W ?K s (write_file E ''.version'' c s)"
    by (rule frame_write) simp
  have h: "\<And>c v. frame ?W ?K s
            (write_file E ''include/cpversion.h'' c (s\<lparr>hashes := AList.update ''version'' v (hashes s)\<rparr>))"
    by (rule frame_trans [OF frame_hash frame_write]) simp_all
  show ?thesis
    unfolding version_to_file_def Let_def
    using frame_trans [OF h w] w by auto
qed

lemma frame_gitrev:
  "frame {''include/gitrevision.h''} {''gitrevision''} s (snd (gitrev_to_file E s))"
  unfolding gitrev_to_file_def Let_def
  by (auto simp: frame_refl frame_write_hash split: option.splits sum.splits)

lemma embed_json_decision:
  "embed_json E (i, out, v) s =
     (case embed_decision True E (''dev/'' @ i) (map_of (files s) (''dev/'' @ i))
             (map_of (files s) (''include/'' @ out)) (map_of (hashes s) v) of
        Inl e \<Rightarrow> (Some e, s)
      | Inr None \<Rightarrow> (None, s)
      | Inr (Some hex) \<Rightarrow>
          (None, (write_file E (''include/'' @ out) (json_header_text (now_str E (clock s)) v hex) s)
                   \<lparr>hashes := AList.update v (JStr (get_hash E hex))
                      (hashes (write_file E (''include/'' @ out) (json_header_text (now_str E (clock s)) v hex) s))\<rparr>))"
proof -
  define inpath where "inpath = ''dev/'' @ i"
  define outpath where "outpath = ''include/'' @ out"
  show ?thesis
    unfolding embed_json_def embed_decision_def payload_of_def needs_build_def exists_file_def
      hash_differs_def Let_def prod.case inpath_def [symmetric] outpath_def [symmetric]
    by (cases "map_of (files s) outpath"; cases "map_of (files s) inpath";
        cases "map_of (hashes s) v"; simp split: option.splits)
qed

lemma embed_incbin_decision:
  "embed_incbin E (i, out, v) s =
     (case embed_decision False E (''dev/'' @ i) (map_of (files s) (''dev/'' @ i))
             (map_of (files s) (''include/'' @ out)) (map_of (hashes s) v) of
        Inl e \<Rightarrow> (Some e, s)
      | Inr None \<Rightarrow> (None, s)
      | Inr (Some hex) \<Rightarrow>
          (None, (write_file E (''include/'' @ out) (incbin_text v hex) s)
                   \<lparr>hashes := AList.update v (JStr (get_hash E hex))
                      (hashes (write_file E (''include/'' @ out) (incbin_text v hex) s))\<rparr>))"
proof -
  define inpath where "inpath = ''dev/'' @ i"
  define outpath where "outpath = ''include/'' @ out"
  show ?thesis
    unfolding embed_incbin_def embed_decision_def payload_of_def needs_build_def exists_file_def
      hash_differs_def Let_def prod.case inpath_def [symmetric] outpath_def [symmetric]
    by (cases "map_of (files s) outpath"; cases "map_of (files s) inpath";
        cases "map_of (hashes s) v"; simp split: option.splits)
qed

lemma decision_after_write:
  "embed_decision j E p inp outp stored = Inr (Some hex) \<Longrightarrow>
   embed_decision j E p inp (Some out') (Some (JStr (get_hash E hex))) = Inr None"
  unfolding embed_decision_def
  by (cases outp; cases inp; auto split: if_splits)


lemma frame_embed_incbin:
  "frame {''include/'' @ out} {v} s (snd (embed_incbin E (i, out, v) s))"
  unfolding embed_incbin_decision
  by (auto simp: frame_refl frame_write_hash split: option.splits sum.splits)

lemma frame_embed_json:
  "frame {''include/'' @ out} {v} s (snd (embed_json E (i, out, v) s))"
  unfolding embed_json_decision
  by (auto simp: frame_refl frame_write_hash split: option.splits sum.splits)

lemma frame_for_jobs:
  "(\<And>j s. j \<in> set js \<Longrightarrow> frame W K s (snd (body j s))) \<Longrightarrow>
   frame W K s (snd (for_jobs body js s))"
proof (induction js arbitrary: s)
  case Nil show ?case by (simp add: frame_refl)
next
  case (Cons j js)
  have step: "frame W K s (snd (body j s))" using Cons.prems by simp
  show ?case
  proof (cases "body j s")
    case (Pair e s')
    show ?thesis
    proof (cases e)
      case None
      have "frame W K s' (snd (for_jobs body js s'))" using Cons by simp
      then show ?thesis using step Pair None by (auto intro: frame_trans)
    next
      case (Some err)
      then show ?thesis using step Pair by simp
    qed
  qed
qed

lemma frame_package_fluids:
  "cachefile dm = ''dev/.fluiddepcache'' \<Longrightarrow>
   frame aggregation_outputs {} s (snd (package_fluids E dm s))"
  unfolding package_fluids_def DependencyManager_write_cache_def Let_def
  by (auto simp: frame_refl aggregation_outputs_def split: sum.splits
           intro!: frame_trans [OF frame_write frame_trans [OF frame_write frame_trans [OF frame_write frame_write]]])

lemma frame_package_incomp:
  "cachefile dm = ''dev/.incompdepcache'' \<Longrightarrow>
   frame aggregation_outputs {} s (snd (package_incomp E dm s))"
  unfolding package_incomp_def DependencyManager_write_cache_def Let_def
  by (auto simp: frame_refl aggregation_outputs_def split: sum.splits
           intro!: frame_trans [OF frame_write frame_trans [OF frame_write frame_write]])

lemma needs_build_cachefile:
  "cachefile (snd (DependencyManager_needs_build E fs dm)) = cachefile dm"
  unfolding DependencyManager_needs_build_def Let_def
  by (auto split: option.splits prod.splits sum.splits)

lemma frame_fluids_job: "frame aggregation_outputs {} s (snd (fluids_job E s))"
proof (cases "DependencyManager_needs_build E (files s) (depfluids_of (files s))")
  case (Pair r dm)
  have "cachefile dm = ''dev/.fluiddepcache''"
    using needs_build_cachefile [of E "files s" "depfluids_of (files s)"] Pair
    by (simp add: depfluids_of_def)
  then show ?thesis
    using Pair frame_package_fluids [of dm s E]
    by (auto simp: fluids_job_def frame_refl split: sum.splits)
qed

lemma frame_incomp_job: "frame aggregation_outputs {} s (snd (incomp_job E s))"
proof (cases "DependencyManager_needs_build E (files s) (depincomp_of (files s))")
  case (Pair r dm)
  have "cachefile dm = ''dev/.incompdepcache''"
    using needs_build_cachefile [of E "files s" "depincomp_of (files s)"] Pair
    by (simp add: depincomp_of_def)
  then show ?thesis
    using Pair frame_package_incomp [of dm s E]
    by (auto simp: incomp_job_def frame_refl split: sum.splits)
qed

lemma frame_combine_json: "frame aggregation_outputs {} s (snd (combine_json E s))"
  using frame_fluids_job [of s E] frame_incomp_job [of "snd (fluids_job E s)" E]
  by (auto simp: combine_json_def split: prod.splits option.splits intro: frame_trans)

section \<open>Steps that have nothing left to do\<close>

text \<open>
  An embed job of the loop over \<open>values\<close> that has completed leaves a state on which it
  does nothing, and whether it does nothing depends only on its input file, its output
  file and its stored digest. The same holds for \<open>gitrev_to_file\<close>.
\<close>

lemma write_hash_neq:
  "(write_file E p c a)\<lparr>hashes := h\<rparr> \<noteq> a"
proof
  assume "(write_file E p c a)\<lparr>hashes := h\<rparr> = a"
  then have "written ((write_file E p c a)\<lparr>hashes := h\<rparr>) = written a" by simp
  then show False by (simp add: write_file_def)
qed

lemma embed_json_settled_iff:
  "embed_json E (i, out, v) s = (None, s) \<longleftrightarrow>
   embed_decision True E (''dev/'' @ i) (map_of (files s) (''dev/'' @ i))
      (map_of (files s) (''include/'' @ out)) (map_of (hashes s) v) = Inr None"
  unfolding embed_json_decision
  using write_hash_neq
  by (auto split: sum.splits option.splits)

lemma embed_json_local:
  assumes "embed_json E (i, out, v) a = (None, a)"
    and "map_of (files b) (''dev/'' @ i) = map_of (files a) (''dev/'' @ i)"
    and "map_of (files b) (''include/'' @ out) = map_of (files a) (''include/'' @ out)"
    and "map_of (hashes b) v = map_of (hashes a) v"
  shows "embed_json E (i, out, v) b = (None, b)"
  using assms by (simp add: embed_json_settled_iff)

lemma embed_json_frame_local:
  assumes "embed_json E (i, out, v) a = (None, a)"
    and "frame W K a b"
    and "''dev/'' @ i \<notin> W" and "''include/'' @ out \<notin> W" and "v \<notin> K"
  shows "embed_json E (i, out, v) b = (None, b)"
  using assms embed_json_local [of E i out v a b] by (simp add: frame_def)

lemma embed_json_settles:
  assumes "embed_json E (i, out, v) s = (None, s')"
  shows "embed_json E (i, out, v) s' = (None, s')"
proof (cases "embed_decision True E (''dev/'' @ i) (map_of (files s) (''dev/'' @ i))
      (map_of (files s) (''include/'' @ out)) (map_of (hashes s) v)")
  case (Inl e)
  then show ?thesis using assms by (simp add: embed_json_decision)
next
  case (Inr w)
  show ?thesis
  proof (cases w)
    case None
    then have "s' = s" using assms Inr by (simp add: embed_json_decision)
    then show ?thesis using assms by simp
  next
    case (Some hex)
    define body where "body = json_header_text (now_str E (clock s)) v hex"
    have s': "s' = (write_file E (''include/'' @ out) body s)
                 \<lparr>hashes := AList.update v (JStr (get_hash E hex))
                      (hashes (write_file E (''include/'' @ out) body s))\<rparr>"
      using assms Inr Some by (simp add: embed_json_decision body_def)
    have ne: "''dev/'' @ i \<noteq> ''include/'' @ out" by simp
    have 1: "map_of (files s') (''dev/'' @ i) = map_of (files s) (''dev/'' @ i)"
      using ne by (simp add: s' write_file_def update_conv' del: append.simps)
    have 2: "map_of (files s') (''include/'' @ out) = Some \<lparr>mtime = clock s, content = body\<rparr>"
      by (simp add: s' write_file_def update_conv' del: append.simps)
    have 3: "map_of (hashes s') v = Some (JStr (get_hash E hex))"
      by (simp add: s' write_file_def update_conv')
    show ?thesis
      unfolding embed_json_settled_iff 1 2 3
      using decision_after_write Inr Some by simp
  qed
qed

lemma outputs_of_Cons:
  "outputs_of ((i, out, v) # js) = insert (''include/'' @ out) (outputs_of js)"
  unfolding outputs_of_def by simp

lemma variables_of_Cons: "variables_of ((i, out, v) # js) = insert v (variables_of js)"
  unfolding variables_of_def by simp

lemma for_jobs_keeps:
  assumes "embed_json E (i, out, v) s = (None, s)"
    and "\<forall>(i', out', v') \<in> set js. (i', out', v') \<noteq> (i, out, v) \<longrightarrow> out' \<noteq> out \<and> v' \<noteq> v"
  shows "frame (outputs_of js - {''include/'' @ out}) (variables_of js - {v}) s
           (snd (for_jobs (embed_json E) js s))
         \<and> (fst (for_jobs (embed_json E) js s) = None
              \<longrightarrow> embed_json E (i, out, v) (snd (for_jobs (embed_json E) js s))
                    = (None, snd (for_jobs (embed_json E) js s)))"
  using assms
proof (induction js arbitrary: s)
  case Nil
  then show ?case by (simp add: frame_refl)
next
  case (Cons k js)
  obtain i' out' v' where k: "k = (i', out', v')" by (cases k) auto
  let ?W = "outputs_of (k # js) - {''include/'' @ out}" and ?K = "variables_of (k # js) - {v}"
  have sub: "outputs_of js - {''include/'' @ out} \<subseteq> ?W" "variables_of js - {v} \<subseteq> ?K"
    unfolding k outputs_of_Cons variables_of_Cons by blast+
  have rest: "\<forall>(i', out', v') \<in> set js. (i', out', v') \<noteq> (i, out, v) \<longrightarrow> out' \<noteq> out \<and> v' \<noteq> v"
    using Cons.prems(2) by auto
  show ?case
  proof (cases "k = (i, out, v)")
    case True
    then have "for_jobs (embed_json E) (k # js) s = for_jobs (embed_json E) js s"
      using Cons.prems(1) by simp
    then show ?thesis
      using Cons.IH [OF Cons.prems(1) rest] sub by (auto intro: frame_mono)
  next
    case False
    then have d: "out' \<noteq> out" "v' \<noteq> v" using Cons.prems(2) k by auto
    obtain e s1 where r: "embed_json E k s = (e, s1)" by (cases "embed_json E k s") auto
    have f0: "frame {''include/'' @ out'} {v'} s s1"
      using frame_embed_json [of out' v' s E i'] r k by simp
    have "{''include/'' @ out'} \<subseteq> ?W" "{v'} \<subseteq> ?K"
      unfolding k outputs_of_Cons variables_of_Cons using d by simp_all
    then have f1: "frame ?W ?K s s1"
      using f0 by (rule_tac frame_mono)
    have st: "embed_json E (i, out, v) s1 = (None, s1)"
      using embed_json_frame_local [OF Cons.prems(1) f0] d by simp
    show ?thesis
    proof (cases e)
      case None
      have "for_jobs (embed_json E) (k # js) s = for_jobs (embed_json E) js s1"
        using r None by simp
      moreover have "frame ?W ?K s1 (snd (for_jobs (embed_json E) js s1))"
        using Cons.IH [OF st rest] sub by (auto intro: frame_mono)
      ultimately show ?thesis
        using Cons.IH [OF st rest] f1 by (auto intro: frame_trans)
    next
      case (Some err)
      then show ?thesis using r f1 by simp
    qed
  qed
qed

lemma for_jobs_settles:
  assumes "for_jobs (embed_json E) js s = (None, s')"
    and "(i, out, v) \<in> set js"
    and "\<forall>(i', out', v') \<in> set js. (i', out', v') \<noteq> (i, out, v) \<longrightarrow> out' \<noteq> out \<and> v' \<noteq> v"
  shows "embed_json E (i, out, v) s' = (None, s')"
  using assms
proof (induction js arbitrary: s)
  case Nil
  then show ?case by simp
next
  case (Cons k js)
  obtain s1 where r: "embed_json E k s = (None, s1)" and r2: "for_jobs (embed_json E) js s1 = (None, s')"
    using Cons.prems(1) by (auto split: prod.splits option.splits)
  have rest: "\<forall>(i', out', v') \<in> set js. (i', out', v') \<noteq> (i, out, v) \<longrightarrow> out' \<noteq> out \<and> v' \<noteq> v"
    using Cons.prems(3) by auto
  show ?case
  proof (cases "k = (i, out, v)")
    case True
    then have "embed_json E (i, out, v) s1 = (None, s1)"
      using r embed_json_settles by simp
    then show ?thesis using for_jobs_keeps [OF _ rest, of E s1] r2 by simp
  next
    case False
    then have "(i, out, v) \<in> set js" using Cons.prems(2) by simp
    then show ?thesis using Cons.IH [OF r2 _ rest] by simp
  qed
qed

lemma git_revision_cong:
  "map_of fs' ''dev/gitrevision.txt'' = map_of fs ''dev/gitrevision.txt''
   \<Longrightarrow> git_revision E fs' = git_revision E fs"
  by (cases "git E") (simp_all add: git_revision_def)

lemma gitrev_settled_iff:
  "gitrev_to_file E s = (None, s) \<longleftrightarrow>
     (case git_revision E (files s) of
        Inl e \<Rightarrow> False
      | Inr None \<Rightarrow> True
      | Inr (Some g) \<Rightarrow> \<not> hash_differs (hashes s) ''gitrevision'' (get_hash E g))"
  unfolding gitrev_to_file_def Let_def
  using write_hash_neq
  by (auto split: sum.splits option.splits)

lemma gitrev_local:
  assumes "gitrev_to_file E a = (None, a)"
    and "map_of (files b) ''dev/gitrevision.txt'' = map_of (files a) ''dev/gitrevision.txt''"
    and "map_of (hashes b) ''gitrevision'' = map_of (hashes a) ''gitrevision''"
  shows "gitrev_to_file E b = (None, b)"
  using assms git_revision_cong [OF assms(2), of E]
  by (auto simp: gitrev_settled_iff hash_differs_def split: sum.splits option.splits)

lemma gitrev_frame_local:
  assumes "gitrev_to_file E a = (None, a)"
    and "frame W K a b"
    and "''dev/gitrevision.txt'' \<notin> W" and "''gitrevision'' \<notin> K"
  shows "gitrev_to_file E b = (None, b)"
  using assms gitrev_local [of E a b] by (simp add: frame_def)

lemma gitrev_settles:
  assumes "gitrev_to_file E s = (None, s')"
  shows "gitrev_to_file E s' = (None, s')"
proof (cases "git_revision E (files s)")
  case (Inl e)
  then show ?thesis using assms by (simp add: gitrev_to_file_def)
next
  case (Inr w)
  show ?thesis
  proof (cases w)
    case None
    then have "s' = s" using assms Inr by (simp add: gitrev_to_file_def)
    then show ?thesis using assms by simp
  next
    case (Some g)
    show ?thesis
    proof (cases "hash_differs (hashes s) ''gitrevision'' (get_hash E g)")
      case False
      then have "s' = s" using assms Inr Some by (simp add: gitrev_to_file_def)
      then show ?thesis using assms by simp
    next
      case True
      define body where "body = gitrevision_text (now_str E (clock s)) g"
      have s': "s' = (write_file E ''include/gitrevision.h'' body s)
                 \<lparr>hashes := AList.update ''gitrevision'' (JStr (get_hash E g))
                      (hashes (write_file E ''include/gitrevision.h'' body s))\<rparr>"
        using assms Inr Some True by (simp add: gitrev_to_file_def body_def Let_def)
      have 1: "map_of (files s') ''dev/gitrevision.txt'' = map_of (files s) ''dev/gitrevision.txt''"
        by (simp add: s' write_file_def update_conv')
      have 2: "map_of (hashes s') ''gitrevision'' = Some (JStr (get_hash E g))"
        by (simp add: s' write_file_def update_conv')
      show ?thesis
        unfolding gitrev_settled_iff git_revision_cong [OF 1]
        using Inr Some 2 by (simp add: hash_differs_def)
    qed
  qed
qed

lemma version_sets_digest:
  "map_of (hashes (version_to_file E s)) ''version'' = Some (JStr (get_hash E (cmake_version E)))"
  unfolding version_to_file_def Let_def
  by (auto simp: write_file_def update_conv' hash_differs_def split: option.splits)

lemma version_settled:
  "map_of (hashes s) ''version'' = Some (JStr (get_hash E (cmake_version E)))
   \<Longrightarrow> version_to_file E s = write_file E ''.version'' (cmake_version E) s"
  by (simp add: version_to_file_def hash_differs_def)

lemma job_in_sets:
  "(i, out, v) \<in> set js \<Longrightarrow> ''include/'' @ out \<in> outputs_of js \<and> v \<in> variables_of js"
  unfolding outputs_of_def variables_of_def by force

lemma frame_zvalues_loop:
  "frame (outputs_of zvalues) (variables_of zvalues) s (snd (for_jobs (embed_incbin E) zvalues s))"
proof (rule frame_for_jobs)
  fix j s assume m: "j \<in> set zvalues"
  obtain i out v where j: "j = (i, out, v)" by (cases j) auto
  have "{''include/'' @ out} \<subseteq> outputs_of zvalues" "{v} \<subseteq> variables_of zvalues"
    using job_in_sets [of i out v zvalues] m j by simp_all
  then show "frame (outputs_of zvalues) (variables_of zvalues) s (snd (embed_incbin E j s))"
    unfolding j by (rule frame_mono [OF frame_embed_incbin])
qed

lemma frame_values_loop:
  "frame (outputs_of values_tab) (variables_of values_tab) s
     (snd (for_jobs (embed_json E) values_tab s))"
proof (rule frame_for_jobs)
  fix j s assume m: "j \<in> set values_tab"
  obtain i out v where j: "j = (i, out, v)" by (cases j) auto
  have "{''include/'' @ out} \<subseteq> outputs_of values_tab" "{v} \<subseteq> variables_of values_tab"
    using job_in_sets [of i out v values_tab] m j by simp_all
  then show "frame (outputs_of values_tab) (variables_of values_tab) s (snd (embed_json E j s))"
    unfolding j by (rule frame_mono [OF frame_embed_json])
qed

lemma frame_TO_CPP:
  "frame (aggregation_outputs \<union> outputs_of zvalues \<union> outputs_of values_tab)
         (variables_of zvalues \<union> variables_of values_tab) s (snd (TO_CPP E s))"
proof -
  let ?W = "aggregation_outputs \<union> outputs_of zvalues \<union> outputs_of values_tab"
  let ?K = "variables_of zvalues \<union> variables_of values_tab"
  have c: "\<And>s. frame ?W ?K s (snd (combine_json E s))"
    by (rule frame_mono [OF frame_combine_json]) auto
  have z: "\<And>s. frame ?W ?K s (snd (for_jobs (embed_incbin E) zvalues s))"
    by (rule frame_mono [OF frame_zvalues_loop]) auto
  have v: "\<And>s. frame ?W ?K s (snd (for_jobs (embed_json E) values_tab s))"
    by (rule frame_mono [OF frame_values_loop]) auto
  show ?thesis
    unfolding TO_CPP_def
    using c [of s] z [of "snd (combine_json E s)"]
          v [of "snd (for_jobs (embed_incbin E) zvalues (snd (combine_json E s)))"]
    by (auto split: prod.splits option.splits intro: frame_trans)
qed

lemma values_tab_distinct:
  "distinct (map (\<lambda>(i, out, v). out) values_tab)" "distinct (map (\<lambda>(i, out, v). v) values_tab)"
  by (simp_all add: values_tab_def)

lemma values_tab_others:
  assumes "(i, out, v) \<in> set values_tab"
  shows "\<forall>(i', out', v') \<in> set values_tab. (i', out', v') \<noteq> (i, out, v) \<longrightarrow> out' \<noteq> out \<and> v' \<noteq> v"
proof -
  have 1: "inj_on (\<lambda>(i, out, v). out) (set values_tab)"
    using values_tab_distinct(1) by (simp add: distinct_map)
  have 2: "inj_on (\<lambda>(i, out, v). v) (set values_tab)"
    using values_tab_distinct(2) by (simp add: distinct_map)
  show ?thesis
    using 1 2 assms unfolding inj_on_def by fastforce
qed

lemma values_tab_names:
  "(i, out, v) \<in> set values_tab \<Longrightarrow>
     i \<noteq> ''hashes.json'' \<and> out \<noteq> ''all_fluids_JSON_z.h''
     \<and> out \<noteq> ''cpversion.h'' \<and> out \<noteq> ''gitrevision.h''
     \<and> v \<noteq> ''all_fluids_JSON_z'' \<and> v \<noteq> ''version'' \<and> v \<noteq> ''gitrevision''"
  by (auto simp: values_tab_def)

lemma zvalues_sets:
  "outputs_of zvalues = {''include/all_fluids_JSON_z.h''}" "variables_of zvalues = {''all_fluids_JSON_z''}"
  by (simp_all add: outputs_of_def variables_of_def zvalues_def)

lemma include_not_aggregated: "''include/'' @ out \<notin> aggregation_outputs"
  by (simp add: aggregation_outputs_def)

lemma TO_CPP_keeps:
  assumes st: "embed_json E (i, out, v) s = (None, s)"
    and m: "(i, out, v) \<in> set values_tab"
    and src: "''dev/'' @ i \<notin> aggregation_outputs"
  shows "frame (aggregation_outputs \<union> outputs_of zvalues \<union> (outputs_of values_tab - {''include/'' @ out}))
               UNIV s (snd (TO_CPP E s))"
proof -
  let ?W = "aggregation_outputs \<union> outputs_of zvalues \<union> (outputs_of values_tab - {''include/'' @ out})"
  define b1 where "b1 = snd (combine_json E s)"
  define b2 where "b2 = snd (for_jobs (embed_incbin E) zvalues b1)"
  define c where "c = snd (for_jobs (embed_json E) values_tab b2)"
  have n: "out \<noteq> ''all_fluids_JSON_z.h''" "v \<noteq> ''all_fluids_JSON_z''"
    using values_tab_names [OF m] by simp_all
  have f1: "frame aggregation_outputs {} s b1"
    unfolding b1_def by (rule frame_combine_json)
  have f2: "frame (outputs_of zvalues) (variables_of zvalues) b1 b2"
    unfolding b2_def by (rule frame_zvalues_loop)
  have st1: "embed_json E (i, out, v) b1 = (None, b1)"
    using embed_json_frame_local [OF st f1 src include_not_aggregated] by simp
  have st2: "embed_json E (i, out, v) b2 = (None, b2)"
    using embed_json_frame_local [OF st1 f2] n by (simp add: zvalues_sets)
  have f3: "frame (outputs_of values_tab - {''include/'' @ out}) (variables_of values_tab - {v}) b2 c"
    unfolding c_def using for_jobs_keeps [OF st2 values_tab_others [OF m]] by simp
  have g1: "frame ?W UNIV s b1" by (rule frame_mono [OF f1]) auto
  have g2: "frame ?W UNIV b1 b2" by (rule frame_mono [OF f2]) auto
  have g3: "frame ?W UNIV b2 c" by (rule frame_mono [OF f3]) auto
  have "snd (TO_CPP E s) = b1 \<or> snd (TO_CPP E s) = b2 \<or> snd (TO_CPP E s) = c"
    unfolding TO_CPP_def b1_def b2_def c_def
    by (auto split: prod.splits option.splits)
  then show ?thesis
    using g1 frame_trans [OF g1 g2] frame_trans [OF frame_trans [OF g1 g2] g3] by auto
qed

section \<open>Two runs in a row\<close>

lemma frame_final_write:
  "frame {hashes_fname} {} c
     (if hashes c \<noteq> [] then write_file E hashes_fname (json_dumps E (JObj (hashes c))) c else c)"
  by (simp add: frame_write frame_refl)

lemma gitrevision_txt_untouched:
  "''dev/gitrevision.txt'' \<notin> aggregation_outputs \<union> outputs_of zvalues \<union> outputs_of values_tab \<union> {hashes_fname}"
  by (auto simp: aggregation_outputs_def outputs_of_def hashes_fname_def)

lemma gitrevision_key_untouched:
  "''gitrevision'' \<notin> variables_of zvalues \<union> variables_of values_tab"
proof -
  have "''gitrevision'' \<notin> variables_of zvalues" by (simp add: zvalues_sets)
  moreover have "''gitrevision'' \<notin> variables_of values_tab"
    using values_tab_names [of _ _ "''gitrevision''"] by (auto simp: variables_of_def)
  ultimately show ?thesis by simp
qed

lemma version_key_untouched:
  "''version'' \<notin> variables_of zvalues \<union> variables_of values_tab"
proof -
  have "''version'' \<notin> variables_of zvalues" by (simp add: zvalues_sets)
  moreover have "''version'' \<notin> variables_of values_tab"
    using values_tab_names [of _ _ "''version''"] by (auto simp: variables_of_def)
  ultimately show ?thesis by simp
qed

lemma generate_post:
  assumes "generate E s = (None, s1)"
  shows "map_of (hashes s1) ''version'' = Some (JStr (get_hash E (cmake_version E)))"
    and "gitrev_to_file E s1 = (None, s1)"
    and "\<forall>(i, out, v) \<in> set values_tab. embed_json E (i, out, v) s1 = (None, s1)"
    and "\<exists>f. map_of (files s1) hashes_fname = Some f \<and> content f = json_dumps E (JObj (hashes s1))"
proof -
  let ?W = "aggregation_outputs \<union> outputs_of zvalues \<union> outputs_of values_tab \<union> {hashes_fname}"
  let ?K = "variables_of zvalues \<union> variables_of values_tab"
  define a where "a = version_to_file E s"
  obtain b where b: "gitrev_to_file E a = (None, b)"
    using assms unfolding generate_def a_def by (auto split: prod.splits option.splits)
  obtain c where c: "TO_CPP E b = (None, c)"
    using assms b unfolding generate_def a_def by (auto split: prod.splits option.splits)
  have s1: "s1 = (if hashes c \<noteq> [] then write_file E hashes_fname (json_dumps E (JObj (hashes c))) c else c)"
    using assms b c unfolding generate_def a_def by simp
  obtain b1 where b1: "combine_json E b = (None, b1)"
    using c unfolding TO_CPP_def by (auto split: prod.splits option.splits)
  obtain b2 where b2: "for_jobs (embed_incbin E) zvalues b1 = (None, b2)"
    using c b1 unfolding TO_CPP_def by (auto split: prod.splits option.splits)
  have vloop: "for_jobs (embed_json E) values_tab b2 = (None, c)"
    using c b1 b2 unfolding TO_CPP_def by simp
  have fab: "frame {''include/gitrevision.h''} {''gitrevision''} a b"
    using frame_gitrev [of a E] b by simp
  have fbc: "frame (aggregation_outputs \<union> outputs_of zvalues \<union> outputs_of values_tab) ?K b c"
    using frame_TO_CPP [of b E] c by simp
  have fcs: "frame {hashes_fname} {} c s1"
    unfolding s1 by (rule frame_final_write)
  have fbs: "frame ?W ?K b s1"
    by (rule frame_trans [OF frame_mono [OF fbc] frame_mono [OF fcs]]) auto
  have va: "map_of (hashes a) ''version'' = Some (JStr (get_hash E (cmake_version E)))"
    unfolding a_def by (rule version_sets_digest)
  have vb: "map_of (hashes b) ''version'' = map_of (hashes a) ''version''"
    using fab by (simp add: frame_def)
  have vs: "map_of (hashes s1) ''version'' = map_of (hashes b) ''version''"
    using fbs version_key_untouched by (simp add: frame_def)
  show A: "map_of (hashes s1) ''version'' = Some (JStr (get_hash E (cmake_version E)))"
    using va vb vs by simp
  have "gitrev_to_file E b = (None, b)" using b by (rule gitrev_settles)
  then show "gitrev_to_file E s1 = (None, s1)"
    using gitrev_frame_local [OF _ fbs] gitrevision_txt_untouched gitrevision_key_untouched
    by blast
  show "\<forall>(i, out, v) \<in> set values_tab. embed_json E (i, out, v) s1 = (None, s1)"
  proof (clarify)
    fix i out v assume m: "(i, out, v) \<in> set values_tab"
    have stc: "embed_json E (i, out, v) c = (None, c)"
      using for_jobs_settles [OF vloop m values_tab_others [OF m]] .
    have "i \<noteq> ''hashes.json''" using values_tab_names [OF m] by simp
    then have "''dev/'' @ i \<notin> {hashes_fname}" "''include/'' @ out \<notin> {hashes_fname}"
      by (simp_all add: hashes_fname_def)
    then show "embed_json E (i, out, v) s1 = (None, s1)"
      using embed_json_frame_local [OF stc fcs] by simp
  qed
  have "hashes c \<noteq> []"
  proof
    assume "hashes c = []"
    then have "map_of (hashes c) ''version'' = None" by simp
    moreover have "map_of (hashes c) ''version'' = map_of (hashes s1) ''version''"
      using fcs by (simp add: frame_def)
    ultimately show False using A by simp
  qed
  then have "s1 = write_file E hashes_fname (json_dumps E (JObj (hashes c))) c" using s1 by simp
  then show "\<exists>f. map_of (files s1) hashes_fname = Some f \<and> content f = json_dumps E (JObj (hashes s1))"
    by (simp add: write_file_def update_conv')
qed

lemma generate_again:
  assumes A: "map_of (hashes r) ''version'' = Some (JStr (get_hash E (cmake_version E)))"
    and B: "gitrev_to_file E r = (None, r)"
  shows "\<exists>ws. written (snd (generate E r)) = written r @ ''.version'' # ws
          \<and> set ws \<subseteq> aggregation_outputs \<union> outputs_of zvalues \<union> outputs_of values_tab \<union> {hashes_fname}
          \<and> (fst (generate E r) = None \<longrightarrow> hashes_fname \<in> set ws)
          \<and> (\<forall>(i, out, v) \<in> set values_tab.
                ''dev/'' @ i \<notin> aggregation_outputs \<and> embed_json E (i, out, v) r = (None, r)
                \<longrightarrow> ''include/'' @ out \<notin> set ws)"
proof -
  let ?W = "aggregation_outputs \<union> outputs_of zvalues \<union> outputs_of values_tab \<union> {hashes_fname}"
  define a2 where "a2 = write_file E ''.version'' (cmake_version E) r"
  define c where "c = snd (TO_CPP E a2)"
  define fin where "fin = snd (generate E r)"
  have va: "version_to_file E r = a2"
    unfolding a2_def using A by (rule version_settled)
  have fra: "frame {''.version''} {} r a2"
    unfolding a2_def by (rule frame_write) simp
  have wa: "written a2 = written r @ [''.version'']"
    by (simp add: a2_def write_file_def)
  have ga: "gitrev_to_file E a2 = (None, a2)"
    using gitrev_frame_local [OF B fra] by simp
  have gen: "generate E r =
      (case TO_CPP E a2 of
         (Some e, s3) \<Rightarrow> (Some e, s3)
       | (None, s3) \<Rightarrow>
           (None, if hashes s3 \<noteq> []
                  then write_file E hashes_fname (json_dumps E (JObj (hashes s3))) s3 else s3))"
    unfolding generate_def va ga by simp
  have fcf: "frame {hashes_fname} {} c fin"
  proof (cases "fst (TO_CPP E a2)")
    case None
    then have "fin = (if hashes c \<noteq> []
                  then write_file E hashes_fname (json_dumps E (JObj (hashes c))) c else c)"
      unfolding fin_def gen c_def by (cases "TO_CPP E a2") simp
    then show ?thesis using frame_final_write [of c E] by simp
  next
    case (Some e)
    then have "fin = c" unfolding fin_def gen c_def by (cases "TO_CPP E a2") simp
    then show ?thesis by (simp add: frame_refl)
  qed
  have fac: "frame (aggregation_outputs \<union> outputs_of zvalues \<union> outputs_of values_tab)
               (variables_of zvalues \<union> variables_of values_tab) a2 c"
    unfolding c_def by (rule frame_TO_CPP)
  have faf: "frame ?W UNIV a2 fin"
    by (rule frame_trans [OF frame_mono [OF fac] frame_mono [OF fcf]]) auto
  then obtain ws where ws: "written fin = written a2 @ ws" "set ws \<subseteq> ?W"
    unfolding frame_def by blast
  have last: "fst (generate E r) = None \<longrightarrow> hashes_fname \<in> set ws"
  proof
    assume ok: "fst (generate E r) = None"
    then have t: "fst (TO_CPP E a2) = None"
      unfolding gen by (cases "TO_CPP E a2") (auto split: option.splits)
    have "map_of (hashes c) ''version'' = map_of (hashes a2) ''version''"
      using fac version_key_untouched by (simp add: frame_def)
    moreover have "map_of (hashes a2) ''version'' = map_of (hashes r) ''version''"
      using fra by (simp add: frame_def)
    ultimately have "hashes c \<noteq> []" using A by auto
    then have "fin = write_file E hashes_fname (json_dumps E (JObj (hashes c))) c"
      using t unfolding fin_def gen c_def by (cases "TO_CPP E a2") simp
    then have wf: "written fin = written c @ [hashes_fname]" by (simp add: write_file_def)
    obtain wc where "written c = written a2 @ wc" using fac unfolding frame_def by blast
    then have "ws = wc @ [hashes_fname]" using wf ws(1) by simp
    then show "hashes_fname \<in> set ws" by simp
  qed
  have jobs: "\<forall>(i, out, v) \<in> set values_tab.
                ''dev/'' @ i \<notin> aggregation_outputs \<and> embed_json E (i, out, v) r = (None, r)
                \<longrightarrow> ''include/'' @ out \<notin> set ws"
  proof (clarify)
    fix i out v
    assume m: "(i, out, v) \<in> set values_tab"
      and src: "''dev/'' @ i \<notin> aggregation_outputs"
      and st: "embed_json E (i, out, v) r = (None, r)"
      and bad: "''include/'' @ out \<in> set ws"
    let ?Wj = "aggregation_outputs \<union> outputs_of zvalues
                \<union> (outputs_of values_tab - {''include/'' @ out}) \<union> {hashes_fname}"
    have sta: "embed_json E (i, out, v) a2 = (None, a2)"
      using embed_json_frame_local [OF st fra] by simp
    have "frame (aggregation_outputs \<union> outputs_of zvalues
                  \<union> (outputs_of values_tab - {''include/'' @ out})) UNIV a2 c"
      unfolding c_def by (rule TO_CPP_keeps [OF sta m src])
    then have "frame ?Wj UNIV a2 fin"
      by (rule frame_trans [OF frame_mono frame_mono [OF fcf]]) auto
    then obtain ws' where ws': "written fin = written a2 @ ws'" "set ws' \<subseteq> ?Wj"
      unfolding frame_def by blast
    have "ws' = ws" using ws(1) ws'(1) by simp
    then have "''include/'' @ out \<in> ?Wj" using bad ws'(2) by blast
    moreover have "out \<noteq> ''all_fluids_JSON_z.h''" using values_tab_names [OF m] by simp
    ultimately show False
      using include_not_aggregated [of out] by (simp add: zvalues_sets hashes_fname_def)
  qed
  show ?thesis
    using ws last jobs wa unfolding fin_def by auto
qed

lemma header_paths_untouched:
  "''include/cpversion.h'' \<notin> aggregation_outputs \<union> outputs_of zvalues \<union> outputs_of values_tab \<union> {hashes_fname}"
  "''include/gitrevision.h'' \<notin> aggregation_outputs \<union> outputs_of zvalues \<union> outputs_of values_tab \<union> {hashes_fname}"
proof -
  have "''include/cpversion.h'' \<notin> outputs_of values_tab" "''include/gitrevision.h'' \<notin> outputs_of values_tab"
    using values_tab_names by (auto simp: outputs_of_def)
  then show
    "''include/cpversion.h'' \<notin> aggregation_outputs \<union> outputs_of zvalues \<union> outputs_of values_tab \<union> {hashes_fname}"
    "''include/gitrevision.h'' \<notin> aggregation_outputs \<union> outputs_of zvalues \<union> outputs_of values_tab \<union> {hashes_fname}"
    by (simp_all add: aggregation_outputs_def zvalues_sets hashes_fname_def)
qed

lemma second_run_core:
  assumes ok: "fst (run_script E fs t) = None"
    and rt: "json_loads E (json_dumps E (JObj (hashes (snd (run_script E fs t)))))
               = Some (JObj (hashes (snd (run_script E fs t))))"
  shows "let s1 = snd (run_script E fs t); r2 = run_script E (files s1) (clock s1) in
           ''.version'' \<in> set (written (snd r2))
           \<and> (fst r2 = None \<longrightarrow> hashes_fname \<in> set (written (snd r2)))
           \<and> ''include/cpversion.h'' \<notin> set (written (snd r2))
           \<and> ''include/gitrevision.h'' \<notin> set (written (snd r2))
           \<and> (\<forall>(i, out, v) \<in> set values_tab.
                 ''dev/'' @ i \<notin> aggregation_outputs \<longrightarrow> ''include/'' @ out \<notin> set (written (snd r2)))"
proof -
  define s1 where "s1 = snd (run_script E fs t)"
  define r0 where "r0 = \<lparr>files = files s1, clock = clock s1, hashes = hashes s1, written = []\<rparr>"
  obtain h where h: "load_hashes E fs = Inr (JObj h)"
  proof (cases "load_hashes E fs")
    case (Inl e)
    then show ?thesis using ok unfolding run_script_def by simp
  next
    case (Inr j)
    then show ?thesis using ok that unfolding run_script_def by (cases j) simp_all
  qed
  have g1: "generate E \<lparr>files = fs, clock = t, hashes = h, written = []\<rparr> = (None, s1)"
    using ok h unfolding run_script_def s1_def
    by (cases "generate E \<lparr>files = fs, clock = t, hashes = h, written = []\<rparr>") simp
  note post = generate_post [OF g1]
  obtain f where f: "map_of (files s1) hashes_fname = Some f"
      "content f = json_dumps E (JObj (hashes s1))"
    using post(4) by blast
  have "load_hashes E (files s1) = Inr (JObj (hashes s1))"
    using f rt unfolding load_hashes_def s1_def by simp
  then have run2: "run_script E (files s1) (clock s1) = generate E r0"
    unfolding run_script_def r0_def by simp
  have A: "map_of (hashes r0) ''version'' = Some (JStr (get_hash E (cmake_version E)))"
    using post(1) by (simp add: r0_def)
  have B: "gitrev_to_file E r0 = (None, r0)"
    using gitrev_local [OF post(2), of r0] by (simp add: r0_def)
  have C: "\<And>i out v. (i, out, v) \<in> set values_tab \<Longrightarrow> embed_json E (i, out, v) r0 = (None, r0)"
  proof -
    fix i out v assume "(i, out, v) \<in> set values_tab"
    then have "embed_json E (i, out, v) s1 = (None, s1)" using post(3) by auto
    then show "embed_json E (i, out, v) r0 = (None, r0)"
      using embed_json_local [of E i out v s1 r0] by (simp add: r0_def)
  qed
  obtain ws where wsall: "written (snd (generate E r0)) = written r0 @ ''.version'' # ws
      \<and> set ws \<subseteq> aggregation_outputs \<union> outputs_of zvalues \<union> outputs_of values_tab \<union> {hashes_fname}
      \<and> (fst (generate E r0) = None \<longrightarrow> hashes_fname \<in> set ws)
      \<and> (\<forall>(i, out, v) \<in> set values_tab.
          ''dev/'' @ i \<notin> aggregation_outputs \<and> embed_json E (i, out, v) r0 = (None, r0)
          \<longrightarrow> ''include/'' @ out \<notin> set ws)"
    using generate_again [OF A B] by (rule exE)
  have ws: "written (snd (generate E r0)) = written r0 @ ''.version'' # ws"
      "set ws \<subseteq> aggregation_outputs \<union> outputs_of zvalues \<union> outputs_of values_tab \<union> {hashes_fname}"
      "fst (generate E r0) = None \<longrightarrow> hashes_fname \<in> set ws"
      "\<forall>(i, out, v) \<in> set values_tab.
          ''dev/'' @ i \<notin> aggregation_outputs \<and> embed_json E (i, out, v) r0 = (None, r0)
          \<longrightarrow> ''include/'' @ out \<notin> set ws"
    using wsall by blast+
  have w: "written (snd (generate E r0)) = ''.version'' # ws"
    using ws(1) by (simp add: r0_def)
  have c1: "''include/cpversion.h'' \<notin> set ws" "''include/gitrevision.h'' \<notin> set ws"
    using ws(2) header_paths_untouched by blast+
  have c2: "\<forall>(i, out, v) \<in> set values_tab.
          ''dev/'' @ i \<notin> aggregation_outputs \<longrightarrow> ''include/'' @ out \<notin> set (''.version'' # ws)"
  proof (clarify)
    fix i out v
    assume m: "(i, out, v) \<in> set values_tab" and src: "''dev/'' @ i \<notin> aggregation_outputs"
      and bad: "''include/'' @ out \<in> set (''.version'' # ws)"
    have "''include/'' @ out \<notin> set ws" using ws(4) m src C [OF m] by auto
    then show False using bad by simp
  qed
  show ?thesis
    unfolding Let_def s1_def [symmetric] run2 w
    using ws(3) c1 c2 by simp
qed

lemma first_run_ok: "fst first_run = None"
  by code_simp

lemma first_run_roundtrip:
  "json_loads sample_ext (json_dumps sample_ext (JObj (hashes (snd first_run))))
     = Some (JObj (hashes (snd first_run)))"
  by code_simp

lemma second_run_ok: "fst second_run = None"
  by code_simp

lemma first_run_writes:
  "''include/mixture_departure_functions_JSON.h'' \<in> set (written (snd first_run))"
  by code_simp

text \<open>
  C1, as stated, fails: the first run on the sample files completes, and the second run,
  on the files that the first has left, writes the hidden version file.
\<close>

theorem second_run_writes_counterexample:
  "fst first_run = None \<and> ''.version'' \<in> set (written (snd second_run))"
  using second_run_core [of sample_ext fs_checkout 10] first_run_ok first_run_roundtrip
  unfolding first_run_def second_run_def Let_def by blast

text \<open>
  C1, amended. After a run that completes, whose \<open>hashes.json\<close> reads back as the
  dictionary that was written, a second run on the files it has left: writes the hidden
  version file again; writes \<open>hashes.json\<close> again when it completes; and writes
  neither \<open>cpversion.h\<close>, nor \<open>gitrevision.h\<close>, nor the header of any job of the loop
  over \<open>values\<close> whose input is not an output of \<open>combine_json\<close>. (The outputs of
  \<open>combine_json\<close> and the headers made from them are left out of the statement.)
\<close>

theorem second_run_writes:
  assumes "fst (run_script E fs t) = None"
    and "json_loads E (json_dumps E (JObj (hashes (snd (run_script E fs t)))))
               = Some (JObj (hashes (snd (run_script E fs t))))"
  shows "let s1 = snd (run_script E fs t); r2 = run_script E (files s1) (clock s1) in
           ''.version'' \<in> set (written (snd r2))
           \<and> (fst r2 = None \<longrightarrow> hashes_fname \<in> set (written (snd r2)))
           \<and> ''include/cpversion.h'' \<notin> set (written (snd r2))
           \<and> ''include/gitrevision.h'' \<notin> set (written (snd r2))
           \<and> (\<forall>(i, out, v) \<in> set values_tab.
                 ''dev/'' @ i \<notin> aggregation_outputs \<longrightarrow> ''include/'' @ out \<notin> set (written (snd r2)))"
  using assms by (rule second_run_core)

theorem second_run_writes_witness:
  "fst first_run = None
   \<and> json_loads sample_ext (json_dumps sample_ext (JObj (hashes (snd first_run))))
       = Some (JObj (hashes (snd first_run)))
   \<and> fst second_run = None
   \<and> (''mixtures/mixture_departure_functions.json'', ''mixture_departure_functions_JSON.h'',
       ''mixture_departure_functions_JSON'') \<in> set values_tab
   \<and> ''dev/mixtures/mixture_departure_functions.json'' \<notin> aggregation_outputs
   \<and> ''include/mixture_departure_functions_JSON.h'' \<in> set (written (snd first_run))
   \<and> ''.version'' \<in> set (written (snd second_run))
   \<and> hashes_fname \<in> set (written (snd second_run))
   \<and> ''include/cpversion.h'' \<notin> set (written (snd second_run))
   \<and> ''include/gitrevision.h'' \<notin> set (written (snd second_run))
   \<and> ''include/mixture_departure_functions_JSON.h'' \<notin> set (written (snd second_run))"
proof -
  have m: "(''mixtures/mixture_departure_functions.json'', ''mixture_departure_functions_JSON.h'',
       ''mixture_departure_functions_JSON'') \<in> set values_tab"
    by (simp add: values_tab_def)
  have a: "''dev/mixtures/mixture_departure_functions.json'' \<notin> aggregation_outputs"
    by (simp add: aggregation_outputs_def)
  have core: "''.version'' \<in> set (written (snd second_run))
           \<and> (fst second_run = None \<longrightarrow> hashes_fname \<in> set (written (snd second_run)))
           \<and> ''include/cpversion.h'' \<notin> set (written (snd second_run))
           \<and> ''include/gitrevision.h'' \<notin> set (written (snd second_run))
           \<and> (\<forall>(i, out, v) \<in> set values_tab.
                 ''dev/'' @ i \<notin> aggregation_outputs \<longrightarrow> ''include/'' @ out \<notin> set (written (snd second_run)))"
    using second_run_writes [of sample_ext fs_checkout 10] first_run_ok first_run_roundtrip
    unfolding first_run_def second_run_def Let_def by blast
  then have "''dev/'' @ ''mixtures/mixture_departure_functions.json'' \<notin> aggregation_outputs
     \<longrightarrow> ''include/'' @ ''mixture_departure_functions_JSON.h'' \<notin> set (written (snd second_run))"
    using m by blast
  then have j: "''include/mixture_departure_functions_JSON.h'' \<notin> set (written (snd second_run))"
    using a by simp
  show ?thesis
    using first_run_ok first_run_roundtrip second_run_ok first_run_writes m a core j by blast
qed

end
